theory Spec2Isabelle
  imports Complex_Main "HOL-Library.Log_Nat"
begin

section \<open>Data model of the sequencer\<close>

text \<open>
  The embedding follows the class \<open>Sequencer\<close> (pattern-aware version) and the envelope code
  of \<open>AudioEngine\<close>. JavaScript objects with string keys are association lists in insertion
  order, arrays are lists, numbers that the program keeps integral are \<open>int\<close>, levels and
  times are \<open>rat\<close>. A JavaScript \<open>TypeError\<close> (reading a property of \<open>undefined\<close>) is the
  result \<open>None\<close>; where the handler has written to the object before it throws, a second
  function (\<open>..._thrown\<close>) gives the object as the throw leaves it. DOM updates and the
  audio graph are left out, except for the one rendering routine that writes to
  \<open>synthNotes\<close>; the voices a step fires are returned as a list.
\<close>

type_synonym 'a dict = "(string \<times> 'a) list"

definition dict_get :: "'a dict \<Rightarrow> string \<Rightarrow> 'a option" where
  "dict_get d k = map_of d k"

fun dict_set :: "string \<Rightarrow> 'a \<Rightarrow> 'a dict \<Rightarrow> 'a dict" where
  "dict_set k v [] = [(k, v)]"
| "dict_set k v (e # d) = (if fst e = k then (k, v) # d else e # dict_set k v d)"

definition dict_keys :: "'a dict \<Rightarrow> string list" where
  "dict_keys d = map fst d"

text \<open>\<open>Object.keys(o).forEach(k => o[k] = f(o[k]))\<close>\<close>

definition dict_map_values :: "('a \<Rightarrow> 'b) \<Rightarrow> 'a dict \<Rightarrow> 'b dict" where
  "dict_map_values f d = map (\<lambda>e. (fst e, f (snd e))) d"

text \<open>Array read \<open>arr[i]\<close>: \<open>None\<close> is \<open>undefined\<close>.\<close>

definition js_at :: "'a list \<Rightarrow> int \<Rightarrow> 'a option" where
  "js_at xs i = (if 0 \<le> i \<and> i < int (length xs) then Some (xs ! nat i) else None)"

text \<open>Array write \<open>arr[i] = v\<close>: beyond the end JavaScript extends the array; the holes
  read as falsy and are \<open>False\<close> here.\<close>

definition js_put :: "bool list \<Rightarrow> nat \<Rightarrow> bool \<Rightarrow> bool list" where
  "js_put xs i v = (if i < length xs then xs[i := v]
                    else xs @ replicate (i - length xs) False @ [v])"

text \<open>\<open>arr.slice(0, len)\<close>\<close>

definition js_slice0 :: "'a list \<Rightarrow> int \<Rightarrow> 'a list" where
  "js_slice0 xs len = (if len < 0 then take (nat (int (length xs) + len)) xs
                       else take (nat len) xs)"

text \<open>The remainder operator \<open>a % b\<close> for \<open>b \<noteq> 0\<close>: the sign follows the dividend.\<close>

definition js_mod :: "int \<Rightarrow> int \<Rightarrow> int" where
  "js_mod a b = sgn a * (\<bar>a\<bar> mod \<bar>b\<bar>)"

datatype sect = Drums | Synths

record 'a sections =
  drums :: "'a dict"
  synths :: "'a dict"

fun sec :: "sect \<Rightarrow> 'a sections \<Rightarrow> 'a dict" where
  "sec Drums x = drums x"
| "sec Synths x = synths x"

fun sec_update :: "sect \<Rightarrow> ('a dict \<Rightarrow> 'a dict) \<Rightarrow> 'a sections \<Rightarrow> 'a sections" where
  "sec_update Drums f x = x\<lparr>drums := f (drums x)\<rparr>"
| "sec_update Synths f x = x\<lparr>synths := f (synths x)\<rparr>"

record volume =
  master :: rat
  drumsVolume :: rat
  synthsVolume :: rat
  perInstrument :: "rat sections option"

record effects =
  reverb :: rat
  delay :: rat
  filterLevel :: rat

type_synonym ident = nat

text \<open>\<open>this.sequence\<close>. The key \<open>id\<close> is absent (\<open>None\<close>) until a snapshot that carries
  it has been loaded; \<open>Some None\<close> is \<open>id: null\<close>.\<close>

record sequence =
  seq_name :: string
  seq_bpm :: int
  seq_steps :: int
  tracks :: "bool list sections"
  volume :: volume
  effects :: effects
  removed :: "bool sections"
  seq_id :: "ident option option"

text \<open>A snapshot as \<open>loadSequence\<close> receives it: each key may be absent.\<close>

record snapshot =
  sn_name :: "string option"
  sn_bpm :: "int option"
  sn_steps :: "int option"
  sn_tracks :: "bool list sections option"
  sn_volume :: "volume option"
  sn_effects :: "effects option"
  sn_removed :: "bool sections option"
  sn_id :: "ident option option"

record pattern =
  bars :: int
  p_tracks :: "bool list sections"
  p_removed :: "bool sections"
  p_synthNotes :: "int list dict"

record patterns =
  active :: int
  pending :: "int option"
  store :: "int \<rightharpoonup> pattern"

record timeSig =
  ts_num :: int
  ts_den :: int

text \<open>The two interval callbacks the class installs: the one built by \<open>play\<close> and the one
  built by \<open>updateStepInterval\<close>.\<close>

datatype tick_kind = PlayTick | IntervalTick

record timer =
  timer_id :: nat
  callback :: tick_kind
  period :: rat

text \<open>The object itself, together with the host's table of running interval timers
  (\<open>setInterval\<close> hands out fresh positive handles, so a handle is truthy exactly when it
  is set).\<close>

record sequencer =
  isPlaying :: bool
  currentStep :: int
  bpm :: int
  timeSignature :: timeSig
  steps :: int
  stepInterval :: "nat option"
  currentSequenceId :: "ident option"
  synthNotes :: "int list dict"
  patterns :: patterns
  sequence :: sequence
  timers :: "timer list"
  nextTimer :: nat

datatype voice = DrumVoice string | SynthVoice string int

section \<open>Operations of the sequencer\<close>

definition drum_names :: "string list" where
  "drum_names = [''kick'', ''snare'', ''hihat'', ''openhat'', ''crash'', ''clap'']"

definition synth_names :: "string list" where
  "synth_names = [''bass'', ''lead'', ''pad'', ''arp'']"

definition default_perInstrument :: "rat sections" where
  "default_perInstrument =
     \<lparr>drums = [(''kick'', 0.8), (''snare'', 0.8), (''hihat'', 0.7), (''openhat'', 0.7),
               (''crash'', 0.6), (''clap'', 0.7)],
      synths = [(''bass'', 0.7), (''lead'', 0.6), (''pad'', 0.6), (''arp'', 0.5)]\<rparr>"

definition default_removed :: "bool sections" where
  "default_removed =
     \<lparr>drums = map (\<lambda>n. (n, False)) drum_names, synths = map (\<lambda>n. (n, False)) synth_names\<rparr>"

definition createEmptyPattern :: "sequencer \<Rightarrow> pattern" where
  "createEmptyPattern s =
     (let len = nat (steps s) in
      \<lparr>bars = 1,
       p_tracks = \<lparr>drums = map (\<lambda>n. (n, replicate len False)) drum_names,
                   synths = map (\<lambda>n. (n, replicate len False)) synth_names\<rparr>,
       p_removed = default_removed,
       p_synthNotes = map (\<lambda>n. (n, replicate len 69)) synth_names\<rparr>)"

definition setIntervalHost :: "tick_kind \<Rightarrow> rat \<Rightarrow> sequencer \<Rightarrow> sequencer" where
  "setIntervalHost k ms s =
     s\<lparr>stepInterval := Some (nextTimer s),
       timers := timers s @ [\<lparr>timer_id = nextTimer s, callback = k, period = ms\<rparr>],
       nextTimer := Suc (nextTimer s)\<rparr>"

definition clearIntervalHost :: "nat \<Rightarrow> sequencer \<Rightarrow> sequencer" where
  "clearIntervalHost h s = s\<lparr>timers := filter (\<lambda>t. timer_id t \<noteq> h) (timers s)\<rparr>"

definition getStepDuration :: "sequencer \<Rightarrow> rat" where
  "getStepDuration s = (60 / of_int (bpm s) / 4) * 1000"

definition toggleInstrumentRemoved :: "sect \<Rightarrow> string \<Rightarrow> sequencer \<Rightarrow> sequencer" where
  "toggleInstrumentRemoved sct sound s =
     (let current = (case dict_get (sec sct (removed (sequence s))) sound of
                       None \<Rightarrow> False | Some b \<Rightarrow> b)
      in s\<lparr>sequence := (sequence s)\<lparr>removed :=
             sec_update sct (dict_set sound (\<not> current)) (removed (sequence s))\<rparr>\<rparr>)"

definition setInstrumentVolume :: "sect \<Rightarrow> string \<Rightarrow> rat \<Rightarrow> sequencer \<Rightarrow> sequencer option" where
  "setInstrumentVolume sct sound v s =
     (case perInstrument (volume (sequence s)) of
        None \<Rightarrow> None
      | Some per \<Rightarrow> Some (s\<lparr>sequence := (sequence s)\<lparr>volume := (volume (sequence s))
                 \<lparr>perInstrument := Some (sec_update sct (dict_set sound v) per)\<rparr>\<rparr>\<rparr>))"

definition note_at :: "sequencer \<Rightarrow> string \<Rightarrow> int \<Rightarrow> int" where
  "note_at s sound step =
     (case dict_get (synthNotes s) sound of
        None \<Rightarrow> 69
      | Some arr \<Rightarrow> (case js_at arr step of None \<Rightarrow> 69 | Some m \<Rightarrow> m))"

text \<open>\<open>setStep\<close> and \<open>toggleStep\<close> return the voice played as feedback together with the
  new state.\<close>

definition feedback :: "sequencer \<Rightarrow> sect \<Rightarrow> string \<Rightarrow> nat \<Rightarrow> voice" where
  "feedback s instrument sound step =
     (case instrument of Drums \<Rightarrow> DrumVoice sound
      | Synths \<Rightarrow> SynthVoice sound (note_at s sound (int step)))"

definition setStep :: "sect \<Rightarrow> string \<Rightarrow> nat \<Rightarrow> bool \<Rightarrow> sequencer \<Rightarrow> (voice list \<times> sequencer) option" where
  "setStep instrument sound step v s =
     (case dict_get (sec instrument (tracks (sequence s))) sound of
        None \<Rightarrow> None
      | Some arr \<Rightarrow>
          Some (if v then [feedback s instrument sound step] else [],
                s\<lparr>sequence := (sequence s)\<lparr>tracks :=
                    sec_update instrument (dict_set sound (js_put arr step v))
                      (tracks (sequence s))\<rparr>\<rparr>))"

definition toggleStep :: "sect \<Rightarrow> string \<Rightarrow> nat \<Rightarrow> sequencer \<Rightarrow> (voice list \<times> sequencer) option" where
  "toggleStep instrument sound step s =
     (case dict_get (sec instrument (tracks (sequence s))) sound of
        None \<Rightarrow> None
      | Some arr \<Rightarrow>
          (let currentState = (case js_at arr (int step) of None \<Rightarrow> False | Some b \<Rightarrow> b)
           in Some (if \<not> currentState then [feedback s instrument sound step] else [],
                    s\<lparr>sequence := (sequence s)\<lparr>tracks :=
                        sec_update instrument (dict_set sound (js_put arr step (\<not> currentState)))
                          (tracks (sequence s))\<rparr>\<rparr>)))"

text \<open>Dragging a synth cell writes the clamped MIDI number into \<open>synthNotes\<close>.\<close>

definition setNote :: "string \<Rightarrow> nat \<Rightarrow> int \<Rightarrow> sequencer \<Rightarrow> sequencer option" where
  "setNote sound step midi s =
     (case dict_get (synthNotes s) sound of
        None \<Rightarrow> None
      | Some arr \<Rightarrow>
          Some (s\<lparr>synthNotes := dict_set sound
                  (if step < length arr then arr[step := max 48 (min 84 midi)]
                   else arr @ replicate (step - length arr) 69 @ [max 48 (min 84 midi)])
                  (synthNotes s)\<rparr>))"

definition is_removed :: "sequencer \<Rightarrow> sect \<Rightarrow> string \<Rightarrow> bool" where
  "is_removed s sct sound =
     (case dict_get (sec sct (removed (sequence s))) sound of None \<Rightarrow> False | Some b \<Rightarrow> b)"

definition flag_at :: "bool list \<Rightarrow> int \<Rightarrow> bool" where
  "flag_at arr step = (case js_at arr step of None \<Rightarrow> False | Some b \<Rightarrow> b)"

definition playStep :: "sequencer \<Rightarrow> voice list" where
  "playStep s =
     (let step = currentStep s in
      map (\<lambda>e. DrumVoice (fst e))
        (filter (\<lambda>e. \<not> is_removed s Drums (fst e) \<and> flag_at (snd e) step)
           (drums (tracks (sequence s))))
      @
      map (\<lambda>e. SynthVoice (fst e) (note_at s (fst e) step))
        (filter (\<lambda>e. \<not> is_removed s Synths (fst e) \<and> flag_at (snd e) step)
           (synths (tracks (sequence s)))))"

definition play :: "sequencer \<Rightarrow> sequencer" where
  "play s = (let s1 = s\<lparr>isPlaying := True\<rparr> in setIntervalHost PlayTick (getStepDuration s1) s1)"

definition stop :: "sequencer \<Rightarrow> sequencer" where
  "stop s =
     (let s1 = s\<lparr>isPlaying := False\<rparr>;
          s2 = (case stepInterval s1 of
                  None \<Rightarrow> s1
                | Some h \<Rightarrow> (clearIntervalHost h s1)\<lparr>stepInterval := None\<rparr>)
      in s2\<lparr>currentStep := 0\<rparr>)"

definition updateStepInterval :: "sequencer \<Rightarrow> sequencer" where
  "updateStepInterval s =
     (case stepInterval s of
        None \<Rightarrow> s
      | Some h \<Rightarrow>
          if isPlaying s
          then (let s1 = clearIntervalHost h s in setIntervalHost IntervalTick (getStepDuration s1) s1)
          else s)"

definition setBpm :: "int \<Rightarrow> sequencer \<Rightarrow> sequencer" where
  "setBpm b s =
     (let s1 = s\<lparr>bpm := max 60 (min 200 b)\<rparr>;
          s2 = s1\<lparr>sequence := (sequence s1)\<lparr>seq_bpm := bpm s1\<rparr>\<rparr>
      in if isPlaying s2 then updateStepInterval s2 else s2)"

definition clearSequence :: "sequencer \<Rightarrow> sequencer" where
  "clearSequence s =
     s\<lparr>sequence := (sequence s)\<lparr>tracks :=
         \<lparr>drums = dict_map_values (\<lambda>arr. replicate (length arr) False) (drums (tracks (sequence s))),
          synths = dict_map_values (\<lambda>arr. replicate (length arr) False) (synths (tracks (sequence s)))\<rparr>\<rparr>\<rparr>"

text \<open>\<open>MusicMachineApp.newSequence\<close>\<close>

definition newSequence :: "sequencer \<Rightarrow> sequencer" where
  "newSequence s = (clearSequence s)\<lparr>currentSequenceId := None\<rparr>"

text \<open>JavaScript numbers are IEEE doubles. \<open>to_double\<close> rounds a rational to the nearest
  double, ties to even: \<open>binade x\<close> is the exponent \<open>e\<close> with \<open>2^e \<le> |x| < 2^(e+1)\<close>, and
  the doubles of that binade are the multiples of \<open>2^(e-52)\<close>. Overflow and subnormal
  numbers are not modelled; they do not occur for the time signatures of the model
  (\<open>valid_signature\<close> below).\<close>

definition binade :: "rat \<Rightarrow> int" where
  "binade x =
     (let a = fst (quotient_of \<bar>x\<bar>); b = snd (quotient_of \<bar>x\<bar>); k = bitlen a - bitlen b
      in if 2 powi k \<le> \<bar>x\<bar> then k else k - 1)"

definition round_half_even :: "rat \<Rightarrow> int" where
  "round_half_even q =
     (let f = \<lfloor>q\<rfloor>; r = q - of_int f
      in if r < 1 / 2 then f else if 1 / 2 < r then f + 1 else if even f then f else f + 1)"

definition to_double :: "rat \<Rightarrow> rat" where
  "to_double x =
     (if x = 0 then 0
      else (let u = 2 powi (binade x - 52) in of_int (round_half_even (x / u)) * u))"

text \<open>The time signatures of the model: integers \<open>n\<close> and \<open>d\<close> with \<open>d\<close> not zero, both
  exact as doubles, and \<open>n\<close> small enough for sixteen bars to stay below the largest
  array length, \<open>2^32 - 1\<close>.\<close>

definition valid_signature :: "int \<Rightarrow> int \<Rightarrow> bool" where
  "valid_signature n d = (d \<noteq> 0 \<and> \<bar>n\<bar> < 2 ^ 24 \<and> \<bar>d\<bar> < 2 ^ 53)"

text \<open>\<open>Math.max(1, Math.round(num * (16 / den)))\<close>: the quotient and the product are each
  rounded to a double; \<open>round\<close> rounds halves up, as \<open>Math.round\<close> does. This is the
  value of the source for the time signatures of \<open>valid_signature\<close>; for the denominator
  \<open>0\<close> JavaScript gives \<open>Infinity\<close> or \<open>NaN\<close>.\<close>

definition stepsPerBar :: "sequencer \<Rightarrow> int" where
  "stepsPerBar s =
     max 1 (round (to_double (of_int (ts_num (timeSignature s))
                              * to_double (16 / of_int (ts_den (timeSignature s))))))"

text \<open>\<open>x || 1\<close>\<close>

definition or_one :: "int \<Rightarrow> int" where
  "or_one x = (if x = 0 then 1 else x)"

definition getBars :: "sequencer \<Rightarrow> int" where
  "getBars s = (case store (patterns s) (active (patterns s)) of
                  None \<Rightarrow> 1 | Some p \<Rightarrow> or_one (bars p))"

text \<open>The local \<open>resize\<close> of \<open>setBars\<close>.\<close>

definition resize :: "'a list \<Rightarrow> int \<Rightarrow> 'a \<Rightarrow> 'a list" where
  "resize arr len fillVal =
     (if int (length arr) = len then arr
      else if int (length arr) < len
        then arr @ replicate (nat (len - int (length arr))) fillVal
      else js_slice0 arr len)"

text \<open>The local \<open>resize\<close> of \<open>resizePatternsTo\<close>.\<close>

definition resize_slot :: "'a list \<Rightarrow> int \<Rightarrow> 'a \<Rightarrow> 'a list" where
  "resize_slot arr L fillVal =
     (if int (length arr) < L then arr @ replicate (nat (L - int (length arr))) fillVal
      else js_slice0 arr L)"

text \<open>\<open>d[n] = resize(d[n], len, fillVal)\<close> for one name and for a list of names; a missing
  name makes \<open>arr.length\<close> throw.\<close>

definition resize_entry :: "int \<Rightarrow> 'a \<Rightarrow> string \<Rightarrow> 'a list dict \<Rightarrow> 'a list dict option" where
  "resize_entry len fillVal n d =
     (case dict_get d n of
        None \<Rightarrow> None
      | Some arr \<Rightarrow> Some (dict_set n (resize_slot arr len fillVal) d))"

fun resize_entries :: "int \<Rightarrow> 'a \<Rightarrow> string list \<Rightarrow> 'a list dict \<Rightarrow> 'a list dict option" where
  "resize_entries len fillVal [] d = Some d"
| "resize_entries len fillVal (n # ns) d =
     (case resize_entry len fillVal n d of
        None \<Rightarrow> None
      | Some d' \<Rightarrow> resize_entries len fillVal ns d')"

text \<open>The body of the slot loop. The source resizes a synth's track and its notes in the
  same iteration; the three dictionaries are independent, so the result is the same.\<close>

definition resizePattern :: "int \<Rightarrow> pattern \<Rightarrow> pattern option" where
  "resizePattern len p =
     (case resize_entries len False drum_names (drums (p_tracks p)) of
        None \<Rightarrow> None
      | Some d \<Rightarrow>
     (case resize_entries len False synth_names (synths (p_tracks p)) of
        None \<Rightarrow> None
      | Some sy \<Rightarrow>
     (case resize_entries len 69 synth_names (p_synthNotes p) of
        None \<Rightarrow> None
      | Some nt \<Rightarrow> Some (p\<lparr>p_tracks := \<lparr>drums = d, synths = sy\<rparr>, p_synthNotes := nt\<rparr>))))"

fun resize_slots :: "int \<Rightarrow> int list \<Rightarrow> (int \<rightharpoonup> pattern) \<Rightarrow> (int \<rightharpoonup> pattern) option" where
  "resize_slots len [] st = Some st"
| "resize_slots len (i # is) st =
     (case st i of
        None \<Rightarrow> resize_slots len is st
      | Some p \<Rightarrow>
          (case resizePattern len p of
             None \<Rightarrow> None
           | Some p' \<Rightarrow> resize_slots len is (st(i \<mapsto> p'))))"

definition resizePatternsTo :: "int \<Rightarrow> sequencer \<Rightarrow> sequencer option" where
  "resizePatternsTo len s =
     (case resize_slots len [1, 2, 3, 4] (store (patterns s)) of
        None \<Rightarrow> None
      | Some st \<Rightarrow> Some (s\<lparr>patterns := (patterns s)\<lparr>store := st\<rparr>\<rparr>))"

text \<open>When the slot loop throws, everything assigned before stays. \<open>resize_entries_upto\<close>
  is a dictionary as its loop leaves it, complete or stopped at the first missing name;
  \<open>resize_synths_upto\<close> is the synth loop, which resizes a name's track and then its notes
  within one iteration; \<open>resizePattern_thrown\<close> is a slot whose loop has thrown, and
  \<open>resizePatternsTo_thrown\<close> the object after a throw in \<open>resizePatternsTo\<close>: the slots
  before the failing one are resized, the later ones are untouched.\<close>

fun resize_entries_upto :: "int \<Rightarrow> 'a \<Rightarrow> string list \<Rightarrow> 'a list dict \<Rightarrow> 'a list dict" where
  "resize_entries_upto len fillVal [] d = d"
| "resize_entries_upto len fillVal (n # ns) d =
     (case resize_entry len fillVal n d of
        None \<Rightarrow> d
      | Some d' \<Rightarrow> resize_entries_upto len fillVal ns d')"

fun resize_synths_upto :: "int \<Rightarrow> string list \<Rightarrow> pattern \<Rightarrow> pattern" where
  "resize_synths_upto len [] p = p"
| "resize_synths_upto len (n # ns) p =
     (case resize_entry len False n (synths (p_tracks p)) of
        None \<Rightarrow> p
      | Some sy \<Rightarrow>
          (case resize_entry len 69 n (p_synthNotes p) of
             None \<Rightarrow> p\<lparr>p_tracks := (p_tracks p)\<lparr>synths := sy\<rparr>\<rparr>
           | Some nt \<Rightarrow>
               resize_synths_upto len ns
                 (p\<lparr>p_tracks := (p_tracks p)\<lparr>synths := sy\<rparr>, p_synthNotes := nt\<rparr>)))"

definition resizePattern_thrown :: "int \<Rightarrow> pattern \<Rightarrow> pattern" where
  "resizePattern_thrown len p =
     (case resize_entries len False drum_names (drums (p_tracks p)) of
        None \<Rightarrow>
          p\<lparr>p_tracks := (p_tracks p)
               \<lparr>drums := resize_entries_upto len False drum_names (drums (p_tracks p))\<rparr>\<rparr>
      | Some d \<Rightarrow>
          resize_synths_upto len synth_names (p\<lparr>p_tracks := (p_tracks p)\<lparr>drums := d\<rparr>\<rparr>))"

fun resize_slots_thrown :: "int \<Rightarrow> int list \<Rightarrow> (int \<rightharpoonup> pattern) \<Rightarrow> (int \<rightharpoonup> pattern)" where
  "resize_slots_thrown len [] st = st"
| "resize_slots_thrown len (i # is) st =
     (case st i of
        None \<Rightarrow> resize_slots_thrown len is st
      | Some p \<Rightarrow>
          (case resizePattern len p of
             None \<Rightarrow> st(i \<mapsto> resizePattern_thrown len p)
           | Some p' \<Rightarrow> resize_slots_thrown len is (st(i \<mapsto> p'))))"

definition resizePatternsTo_thrown :: "int \<Rightarrow> sequencer \<Rightarrow> sequencer" where
  "resizePatternsTo_thrown len s =
     s\<lparr>patterns := (patterns s)\<lparr>store := resize_slots_thrown len [1, 2, 3, 4] (store (patterns s))\<rparr>\<rparr>"

text \<open>The part of \<open>renderTracks\<close> that changes the object: \<open>renderSynthTracks\<close> lists the
  synth names, not removed ones first, and gives every name whose note array is missing or
  of the wrong length a fresh array of 69s.\<close>

definition ensure_notes :: "int \<Rightarrow> string \<Rightarrow> int list dict \<Rightarrow> int list dict" where
  "ensure_notes n name notes =
     (case dict_get notes name of
        None \<Rightarrow> dict_set name (replicate (nat n) 69) notes
      | Some arr \<Rightarrow> if int (length arr) \<noteq> n then dict_set name (replicate (nat n) 69) notes
                    else notes)"

definition renderTracks :: "sequencer \<Rightarrow> sequencer" where
  "renderTracks s =
     (let names = dict_keys (synths (tracks (sequence s)));
          sorted = filter (\<lambda>n. \<not> is_removed s Synths n) names
                   @ filter (\<lambda>n. is_removed s Synths n) names
      in s\<lparr>synthNotes := fold (ensure_notes (steps s)) sorted (synthNotes s)\<rparr>)"

text \<open>\<open>setBars\<close> from \<open>this.steps = newSteps\<close> up to the call of \<open>resizePatternsTo\<close>.\<close>

definition setBars_live :: "int \<Rightarrow> sequencer \<Rightarrow> sequencer" where
  "setBars_live newSteps s1 =
     (let s2 = s1\<lparr>steps := newSteps,
                 sequence := (sequence s1)\<lparr>seq_steps := newSteps,
                   tracks := \<lparr>drums = dict_map_values (\<lambda>arr. resize arr newSteps False)
                                         (drums (tracks (sequence s1))),
                              synths = dict_map_values (\<lambda>arr. resize arr newSteps False)
                                         (synths (tracks (sequence s1)))\<rparr>\<rparr>,
                 synthNotes := dict_map_values (\<lambda>arr. resize arr newSteps 69)
                                 (synthNotes s1)\<rparr>;
          s3 = renderTracks s2;
          s4 = s3\<lparr>currentStep := js_mod (currentStep s3) (steps s3)\<rparr>
      in if isPlaying s4 then updateStepInterval s4 else s4)"

definition setBars :: "int \<Rightarrow> sequencer \<Rightarrow> sequencer option" where
  "setBars b s =
     (let clamped = max 1 (min 16 b) in
      case store (patterns s) (active (patterns s)) of
        None \<Rightarrow> Some s
      | Some pat \<Rightarrow>
          (let s1 = s\<lparr>patterns := (patterns s)\<lparr>store :=
                       (store (patterns s))(active (patterns s) \<mapsto> pat\<lparr>bars := clamped\<rparr>)\<rparr>\<rparr>;
               newSteps = clamped * stepsPerBar s1
           in if newSteps = steps s1 then Some s1
              else (let s5 = setBars_live newSteps s1 in resizePatternsTo (steps s5) s5)))"

text \<open>The object after \<open>setBars\<close> has thrown (in \<open>resizePatternsTo\<close>, its last call).\<close>

definition setBars_thrown :: "int \<Rightarrow> sequencer \<Rightarrow> sequencer" where
  "setBars_thrown b s =
     (let clamped = max 1 (min 16 b) in
      case store (patterns s) (active (patterns s)) of
        None \<Rightarrow> s
      | Some pat \<Rightarrow>
          (let s1 = s\<lparr>patterns := (patterns s)\<lparr>store :=
                       (store (patterns s))(active (patterns s) \<mapsto> pat\<lparr>bars := clamped\<rparr>)\<rparr>\<rparr>;
               newSteps = clamped * stepsPerBar s1
           in if newSteps = steps s1 then s1
              else (let s5 = setBars_live newSteps s1 in resizePatternsTo_thrown (steps s5) s5)))"

definition addBars :: "int \<Rightarrow> sequencer \<Rightarrow> sequencer option" where
  "addBars delta s = setBars (getBars s + delta) s"

definition applyTimeSignature :: "sequencer \<Rightarrow> sequencer option" where
  "applyTimeSignature s = setBars (getBars s) s"

text \<open>The change handler of the two time-signature inputs.\<close>

definition onTsChange :: "int \<Rightarrow> int \<Rightarrow> sequencer \<Rightarrow> sequencer option" where
  "onTsChange n d s = applyTimeSignature (s\<lparr>timeSignature := \<lparr>ts_num = n, ts_den = d\<rparr>\<rparr>)"

definition onTsChange_thrown :: "int \<Rightarrow> int \<Rightarrow> sequencer \<Rightarrow> sequencer" where
  "onTsChange_thrown n d s =
     (let t = s\<lparr>timeSignature := \<lparr>ts_num = n, ts_den = d\<rparr>\<rparr> in setBars_thrown (getBars t) t)"

text \<open>\<open>JSON.parse(JSON.stringify(o))\<close> is the identity on these values.\<close>

definition saveCurrentPattern :: "sequencer \<Rightarrow> sequencer option" where
  "saveCurrentPattern s =
     (let i = active (patterns s) in
      case store (patterns s) i of
        None \<Rightarrow> None
      | Some st \<Rightarrow>
          Some (s\<lparr>patterns := (patterns s)\<lparr>store := (store (patterns s))(i \<mapsto>
                   st\<lparr>p_tracks := tracks (sequence s),
                      p_removed := removed (sequence s),
                      p_synthNotes := synthNotes s,
                      bars := getBars s\<rparr>)\<rparr>\<rparr>))"

definition applyPattern :: "int \<Rightarrow> sequencer \<Rightarrow> sequencer option" where
  "applyPattern i s =
     (case store (patterns s) i of
        None \<Rightarrow> Some s
      | Some _ \<Rightarrow>
          (case saveCurrentPattern s of
             None \<Rightarrow> None
           | Some s1 \<Rightarrow>
               (case store (patterns s1) i of
                  None \<Rightarrow> None
                | Some p \<Rightarrow>
                    (let newSteps = or_one (bars p) * stepsPerBar s1;
                         s2 = s1\<lparr>steps := newSteps,
                                 sequence := (sequence s1)\<lparr>seq_steps := newSteps\<rparr>\<rparr>
                     in case resizePatternsTo (steps s2) s2 of
                          None \<Rightarrow> None
                        | Some s3 \<Rightarrow>
                            (case store (patterns s3) i of
                               None \<Rightarrow> None
                             | Some p' \<Rightarrow>
                                 Some (renderTracks
                                   (s3\<lparr>sequence := (sequence s3)\<lparr>tracks := p_tracks p',
                                                                    removed := p_removed p'\<rparr>,
                                       synthNotes := p_synthNotes p',
                                       patterns := (patterns s3)\<lparr>active := i\<rparr>\<rparr>)))))))"

definition requestPattern :: "int \<Rightarrow> sequencer \<Rightarrow> sequencer option" where
  "requestPattern i s =
     (if i = active (patterns s) then Some s
      else if isPlaying s then Some (s\<lparr>patterns := (patterns s)\<lparr>pending := Some i\<rparr>\<rparr>)
      else applyPattern i s)"

text \<open>The object after \<open>applyPattern\<close> has thrown. \<open>saveCurrentPattern\<close> throws before it
  writes anything; otherwise the throw is in \<open>resizePatternsTo\<close>, when the outgoing pattern
  has been saved and the step count set, and before the incoming pattern is copied.\<close>

definition applyPattern_thrown :: "int \<Rightarrow> sequencer \<Rightarrow> sequencer" where
  "applyPattern_thrown i s =
     (case saveCurrentPattern s of
        None \<Rightarrow> s
      | Some s1 \<Rightarrow>
          (case store (patterns s1) i of
             None \<Rightarrow> s1
           | Some p \<Rightarrow>
               (let newSteps = or_one (bars p) * stepsPerBar s1;
                    s2 = s1\<lparr>steps := newSteps,
                            sequence := (sequence s1)\<lparr>seq_steps := newSteps\<rparr>\<rparr>
                in resizePatternsTo_thrown (steps s2) s2)))"

text \<open>The callbacks. \<open>this.patterns.pending\<close> is tested for truthiness: \<open>null\<close> and \<open>0\<close>
  are falsy.\<close>

definition advance :: "sequencer \<Rightarrow> sequencer" where
  "advance s = s\<lparr>currentStep := js_mod (currentStep s + 1) (steps s)\<rparr>"

definition tick :: "tick_kind \<Rightarrow> sequencer \<Rightarrow> (voice list \<times> sequencer) option" where
  "tick k s =
     (let fired = playStep s in
      case k of
        IntervalTick \<Rightarrow> Some (fired, advance s)
      | PlayTick \<Rightarrow>
          (case pending (patterns s) of
             None \<Rightarrow> Some (fired, advance s)
           | Some i \<Rightarrow>
               if currentStep s = steps s - 1 \<and> i \<noteq> 0
               then (case applyPattern i s of
                       None \<Rightarrow> None
                     | Some s1 \<Rightarrow>
                         Some (fired, advance (s1\<lparr>patterns := (patterns s1)\<lparr>pending := None\<rparr>\<rparr>)))
               else Some (fired, advance s)))"

text \<open>A callback throws only inside \<open>applyPattern\<close>: the voices have fired, the pending
  id is not cleared and the index is not advanced.\<close>

definition tick_thrown :: "sequencer \<Rightarrow> sequencer" where
  "tick_thrown s =
     (case pending (patterns s) of None \<Rightarrow> s | Some i \<Rightarrow> applyPattern_thrown i s)"

text \<open>The host fires the interval timer with handle \<open>h\<close> once, and \<open>n\<close> times in a row.
  A handle that is not in the timer table fires nothing.\<close>

definition fire :: "nat \<Rightarrow> sequencer \<Rightarrow> (voice list \<times> sequencer) option" where
  "fire h s =
     (case filter (\<lambda>t. timer_id t = h) (timers s) of
        [] \<Rightarrow> Some ([], s)
      | t # _ \<Rightarrow> tick (callback t) s)"

fun fire_n :: "nat \<Rightarrow> nat \<Rightarrow> sequencer \<Rightarrow> sequencer option" where
  "fire_n h 0 s = Some s"
| "fire_n h (Suc n) s = (case fire h s of None \<Rightarrow> None | Some r \<Rightarrow> fire_n h n (snd r))"

definition getSequenceData :: "sequencer \<Rightarrow> snapshot" where
  "getSequenceData s =
     \<lparr>sn_name = Some (seq_name (sequence s)),
      sn_bpm = Some (seq_bpm (sequence s)),
      sn_steps = Some (seq_steps (sequence s)),
      sn_tracks = Some (tracks (sequence s)),
      sn_volume = Some (volume (sequence s)),
      sn_effects = Some (effects (sequence s)),
      sn_removed = Some (removed (sequence s)),
      sn_id = Some (currentSequenceId s)\<rparr>"

text \<open>\<open>{...this.sequence, ...sequenceData}\<close>: a key of the snapshot replaces the current
  value. With typed snapshots \<open>volume\<close> and \<open>removed\<close> are objects after the merge, so of
  the three defaulting lines only the one for \<open>perInstrument\<close> can take effect.\<close>

definition merge_snapshot :: "sequence \<Rightarrow> snapshot \<Rightarrow> sequence" where
  "merge_snapshot q d =
     \<lparr>seq_name = (case sn_name d of None \<Rightarrow> seq_name q | Some x \<Rightarrow> x),
      seq_bpm = (case sn_bpm d of None \<Rightarrow> seq_bpm q | Some x \<Rightarrow> x),
      seq_steps = (case sn_steps d of None \<Rightarrow> seq_steps q | Some x \<Rightarrow> x),
      tracks = (case sn_tracks d of None \<Rightarrow> tracks q | Some x \<Rightarrow> x),
      volume = (case sn_volume d of None \<Rightarrow> volume q | Some x \<Rightarrow> x),
      effects = (case sn_effects d of None \<Rightarrow> effects q | Some x \<Rightarrow> x),
      removed = (case sn_removed d of None \<Rightarrow> removed q | Some x \<Rightarrow> x),
      seq_id = (case sn_id d of None \<Rightarrow> seq_id q | Some x \<Rightarrow> Some x)\<rparr>"

definition loadSequence :: "snapshot option \<Rightarrow> sequencer \<Rightarrow> sequencer" where
  "loadSequence sequenceData s =
     (case sequenceData of
        None \<Rightarrow> s
      | Some d \<Rightarrow>
          (let q = merge_snapshot (sequence s) d;
               q1 = q\<lparr>volume := (volume q)\<lparr>perInstrument :=
                        (case perInstrument (volume q) of
                           None \<Rightarrow> Some default_perInstrument
                         | Some x \<Rightarrow> Some x)\<rparr>\<rparr>;
               s1 = s\<lparr>sequence := q1,
                      currentSequenceId := (case sn_id d of None \<Rightarrow> None | Some x \<Rightarrow> x)\<rparr>;
               s2 = setBpm (seq_bpm (sequence s1)) s1
           in renderTracks s2))"

text \<open>The six handlers of the mixer and effect sliders, each writing one level, and what
  \<open>saveNewSequence\<close> writes back after a successful save.\<close>

datatype slider = MasterVolume | DrumsVolume | SynthsVolume | ReverbLevel | DelayLevel | FilterLevel

fun setLevel :: "slider \<Rightarrow> rat \<Rightarrow> sequencer \<Rightarrow> sequencer" where
  "setLevel MasterVolume v s =
     s\<lparr>sequence := (sequence s)\<lparr>volume := (volume (sequence s))\<lparr>master := v\<rparr>\<rparr>\<rparr>"
| "setLevel DrumsVolume v s =
     s\<lparr>sequence := (sequence s)\<lparr>volume := (volume (sequence s))\<lparr>drumsVolume := v\<rparr>\<rparr>\<rparr>"
| "setLevel SynthsVolume v s =
     s\<lparr>sequence := (sequence s)\<lparr>volume := (volume (sequence s))\<lparr>synthsVolume := v\<rparr>\<rparr>\<rparr>"
| "setLevel ReverbLevel v s =
     s\<lparr>sequence := (sequence s)\<lparr>effects := (effects (sequence s))\<lparr>reverb := v\<rparr>\<rparr>\<rparr>"
| "setLevel DelayLevel v s =
     s\<lparr>sequence := (sequence s)\<lparr>effects := (effects (sequence s))\<lparr>delay := v\<rparr>\<rparr>\<rparr>"
| "setLevel FilterLevel v s =
     s\<lparr>sequence := (sequence s)\<lparr>effects := (effects (sequence s))\<lparr>filterLevel := v\<rparr>\<rparr>\<rparr>"

definition saved :: "string \<Rightarrow> ident option \<Rightarrow> sequencer \<Rightarrow> sequencer" where
  "saved nm i s = s\<lparr>sequence := (sequence s)\<lparr>seq_name := nm\<rparr>, currentSequenceId := i\<rparr>"

text \<open>The constructor, before \<open>initializeSequencer\<close> fills the pattern store.\<close>

definition constructed :: sequencer where
  "constructed =
     \<lparr>isPlaying = False, currentStep = 0, bpm = 120,
      timeSignature = \<lparr>ts_num = 4, ts_den = 4\<rparr>,
      steps = 16, stepInterval = None, currentSequenceId = None,
      synthNotes = map (\<lambda>n. (n, replicate 16 69)) synth_names,
      patterns = \<lparr>active = 1, pending = None, store = Map.empty\<rparr>,
      sequence =
        \<lparr>seq_name = ''Untitled Sequence'', seq_bpm = 120, seq_steps = 16,
         tracks = \<lparr>drums = map (\<lambda>n. (n, replicate 16 False)) drum_names,
                   synths = map (\<lambda>n. (n, replicate 16 False)) synth_names\<rparr>,
         volume = \<lparr>master = 0.8, drumsVolume = 0.8, synthsVolume = 0.8,
                   perInstrument = Some default_perInstrument\<rparr>,
         effects = \<lparr>reverb = 0.2, delay = 0.1, filterLevel = 0.0\<rparr>,
         removed = default_removed,
         seq_id = None\<rparr>,
      timers = [], nextTimer = 1\<rparr>"

definition initializeSequencer :: "sequencer \<Rightarrow> sequencer option" where
  "initializeSequencer s =
     (let s1 = updateStepInterval (renderTracks s);
          e = createEmptyPattern s1;
          s2 = s1\<lparr>patterns := (patterns s1)\<lparr>store := [1 \<mapsto> e, 2 \<mapsto> e, 3 \<mapsto> e, 4 \<mapsto> e]\<rparr>\<rparr>
      in saveCurrentPattern s2)"

text \<open>The object after construction: four empty slots, and slot 1 saved from the (empty)
  live sequence.\<close>

definition initial_sequencer :: sequencer where
  "initial_sequencer =
     (let e = createEmptyPattern constructed in
      constructed\<lparr>patterns := \<lparr>active = 1, pending = None,
                               store = [1 \<mapsto> e, 2 \<mapsto> e, 3 \<mapsto> e, 4 \<mapsto> e]\<rparr>\<rparr>)"

section \<open>States the program reaches\<close>

text \<open>
  The states reached from the constructed object through the operations as the page
  invokes them. Both transport handlers toggle (\<open>this.isPlaying ? this.stop() : this.play()\<close>),
  so \<open>play\<close> runs only while stopped; \<open>applyPattern\<close> runs only inside
  \<open>requestPattern\<close> and the tick; a tick is a firing of a timer in the host's table. A
  handler that throws leaves the object as its \<open>..._thrown\<close> function says, and the page
  goes on from there (\<open>setStep\<close>, \<open>toggleStep\<close>, the note drag and
  \<open>setInstrumentVolume\<close> throw before they write, which leaves the state as it is). Time
  signatures are those of \<open>valid_signature\<close>. The flag is \<open>True\<close> as long as no tick has
  thrown since the transport was last stopped: \<open>reachable\<close> are all reached states,
  \<open>steady\<close> those reached with no tick thrown since the last \<open>stop\<close>.
\<close>

inductive reached :: "bool \<Rightarrow> sequencer \<Rightarrow> bool" where
  r_init: "reached c initial_sequencer"
| r_play: "reached c s \<Longrightarrow> \<not> isPlaying s \<Longrightarrow> reached c (play s)"
| r_stop: "reached c s \<Longrightarrow> reached c' (stop s)"
| r_tick: "reached c s \<Longrightarrow> t \<in> set (timers s) \<Longrightarrow> tick (callback t) s = Some (vs, s')
             \<Longrightarrow> reached c s'"
| r_tick_throws: "reached c s \<Longrightarrow> t \<in> set (timers s) \<Longrightarrow> tick (callback t) s = None
             \<Longrightarrow> reached False (tick_thrown s)"
| r_setBpm: "reached c s \<Longrightarrow> reached c (setBpm b s)"
| r_setBars: "reached c s \<Longrightarrow> setBars b s = Some s' \<Longrightarrow> reached c s'"
| r_setBars_throws: "reached c s \<Longrightarrow> setBars b s = None \<Longrightarrow> reached c (setBars_thrown b s)"
| r_timeSig: "reached c s \<Longrightarrow> valid_signature n d \<Longrightarrow> onTsChange n d s = Some s'
             \<Longrightarrow> reached c s'"
| r_timeSig_throws: "reached c s \<Longrightarrow> valid_signature n d \<Longrightarrow> onTsChange n d s = None
             \<Longrightarrow> reached c (onTsChange_thrown n d s)"
| r_request: "reached c s \<Longrightarrow> requestPattern i s = Some s' \<Longrightarrow> reached c s'"
| r_request_throws: "reached c s \<Longrightarrow> requestPattern i s = None
             \<Longrightarrow> reached c (applyPattern_thrown i s)"
| r_load: "reached c s \<Longrightarrow> reached c (loadSequence sd s)"
| r_clear: "reached c s \<Longrightarrow> reached c (clearSequence s)"
| r_new: "reached c s \<Longrightarrow> reached c (newSequence s)"
| r_removed: "reached c s \<Longrightarrow> reached c (toggleInstrumentRemoved sct sound s)"
| r_instrumentVolume: "reached c s \<Longrightarrow> setInstrumentVolume sct sound v s = Some s'
             \<Longrightarrow> reached c s'"
| r_setStep: "reached c s \<Longrightarrow> setStep sct sound k on s = Some (vs, s') \<Longrightarrow> reached c s'"
| r_toggleStep: "reached c s \<Longrightarrow> toggleStep sct sound k s = Some (vs, s') \<Longrightarrow> reached c s'"
| r_setNote: "reached c s \<Longrightarrow> setNote sound k m s = Some s' \<Longrightarrow> reached c s'"
| r_setLevel: "reached c s \<Longrightarrow> reached c (setLevel sl v s)"
| r_saved: "reached c s \<Longrightarrow> reached c (saved nm i s)"

abbreviation reachable :: "sequencer \<Rightarrow> bool" where
  "reachable \<equiv> reached False"

abbreviation steady :: "sequencer \<Rightarrow> bool" where
  "steady \<equiv> reached True"

text \<open>The invariant that the proofs below carry along; the flag switches the upper bound
  of the step index on.\<close>

definition wf_state :: "bool \<Rightarrow> sequencer \<Rightarrow> bool" where
  "wf_state c s =
     (1 \<le> steps s \<and> 0 \<le> currentStep s \<and> (c \<longrightarrow> currentStep s < steps s) \<and>
      (if isPlaying s
       then (\<exists>t. timers s = [t] \<and> stepInterval s = Some (timer_id t))
       else currentStep s = 0 \<and> timers s = [] \<and> stepInterval s = None) \<and>
      (\<forall>i p. store (patterns s) i = Some p \<longrightarrow> 1 \<le> bars p) \<and>
      60 \<le> bpm s \<and> bpm s \<le> 200 \<and> seq_bpm (sequence s) = bpm s \<and>
      perInstrument (volume (sequence s)) \<noteq> None)"

section \<open>Shapes\<close>

definition arrays_len :: "int \<Rightarrow> 'a list dict \<Rightarrow> bool" where
  "arrays_len n d = list_all (\<lambda>e. int (length (snd e)) = n) d"

text \<open>A dictionary with exactly the given names as its keys, in any order.\<close>

definition has_names :: "string list \<Rightarrow> 'a dict \<Rightarrow> bool" where
  "has_names ns d = (distinct (dict_keys d) \<and> set (dict_keys d) = set ns)"

definition keyed :: "pattern \<Rightarrow> bool" where
  "keyed p = (has_names drum_names (drums (p_tracks p)) \<and>
              has_names synth_names (synths (p_tracks p)) \<and>
              has_names synth_names (p_synthNotes p))"





text \<open>Resizing as the specification words it: a longer target pads the tail with the fill
  value, a shorter one truncates the tail.\<close>

definition pad_truncate :: "nat \<Rightarrow> 'a \<Rightarrow> 'a list \<Rightarrow> 'a list" where
  "pad_truncate n fillVal arr =
     (if length arr < n then arr @ replicate (n - length arr) fillVal else take n arr)"

definition resized_slot :: "nat \<Rightarrow> pattern \<Rightarrow> pattern" where
  "resized_slot n p =
     p\<lparr>p_tracks := \<lparr>drums = dict_map_values (pad_truncate n False) (drums (p_tracks p)),
                     synths = dict_map_values (pad_truncate n False) (synths (p_tracks p))\<rparr>,
       p_synthNotes := dict_map_values (pad_truncate n 69) (p_synthNotes p)\<rparr>"






section \<open>Observations\<close>

text \<open>The voices of one instrument among the voices a step fired.\<close>

fun is_voice_of :: "sect \<Rightarrow> string \<Rightarrow> voice \<Rightarrow> bool" where
  "is_voice_of Drums n (DrumVoice x) = (x = n)"
| "is_voice_of Synths n (SynthVoice x m) = (x = n)"
| "is_voice_of sct n v = False"

definition voices_for :: "sect \<Rightarrow> string \<Rightarrow> voice list \<Rightarrow> voice list" where
  "voices_for sct n vs = filter (is_voice_of sct n) vs"

definition transport_view :: "sequencer \<Rightarrow> bool \<times> int \<times> int \<times> int option" where
  "transport_view s = (isPlaying s, currentStep s, active (patterns s), pending (patterns s))"

definition live_lengths :: "sequencer \<Rightarrow> nat list" where
  "live_lengths s =
     map (\<lambda>e. length (snd e)) (drums (tracks (sequence s)) @ synths (tracks (sequence s)))"

definition step_position :: "sequencer \<Rightarrow> int \<times> int" where
  "step_position s = (currentStep s, steps s)"

text \<open>A tick of the play timer, seen from outside: the step index and step count before
  it, the callbacks in the host's timer table, the index and count after the tick (\<open>None\<close>
  when the tick throws), and the index and count of the object that a throwing tick
  leaves.\<close>

definition tick_outcome ::
  "sequencer \<Rightarrow> (int \<times> int) \<times> tick_kind list \<times> (int \<times> int) option \<times> (int \<times> int)" where
  "tick_outcome s =
     (step_position s, map callback (timers s),
      map_option (step_position \<circ> snd) (tick PlayTick s), step_position (tick_thrown s))"

text \<open>\<open>loadSequence(getSequenceData())\<close>\<close>

definition reload :: "sequencer \<Rightarrow> sequencer" where
  "reload s = loadSequence (Some (getSequenceData s)) s"

section \<open>Concrete runs\<close>

text \<open>Playback started, ten ticks of the timer that \<open>play\<close> installed (handle 1): the
  sequencer is playing 16 steps and stands at step 10.\<close>

definition at_step_10 :: sequencer where
  "at_step_10 = the (fire_n 1 10 (play initial_sequencer))"

text \<open>From there the tempo is changed (this installs the timer with handle 2) and pattern
  2 is requested.\<close>

definition tempo_then_request :: sequencer where
  "tempo_then_request = the (requestPattern 2 (setBpm 140 at_step_10))"

text \<open>The same request without the tempo change.\<close>

definition request_only :: sequencer where
  "request_only = the (requestPattern 2 at_step_10)"



text \<open>Pattern 1 stretched to two bars (32 steps), playback started, sixteen ticks: the
  sequencer stands at step 16 of 32, and slot 2 still has one bar.\<close>

definition two_bars_at_16 :: sequencer where
  "two_bars_at_16 = the (fire_n 1 16 (play (the (setBars 2 initial_sequencer))))"

text \<open>\<open>play\<close> called twice, then \<open>stop\<close>: the first timer (handle 1) is still in the
  host's table; it fires sixteen times.\<close>

definition orphan_at_16 :: sequencer where
  "orphan_at_16 = the (fire_n 1 16 (stop (play (play (the (setBars 2 initial_sequencer))))))"

text \<open>A snapshot without the kick track, its arrays of length \<open>n\<close>.\<close>

definition snapshot_nokick :: "nat \<Rightarrow> snapshot" where
  "snapshot_nokick n =
     \<lparr>sn_name = Some ''no kick'', sn_bpm = Some 120, sn_steps = Some (int n),
      sn_tracks = Some \<lparr>drums = map (\<lambda>x. (x, replicate n False)) (tl drum_names),
                         synths = map (\<lambda>x. (x, replicate n False)) synth_names\<rparr>,
      sn_volume = None, sn_effects = None, sn_removed = None, sn_id = Some (Some 8)\<rparr>"

text \<open>Pattern 1 is stretched to two bars, the snapshot without the kick is loaded, playback
  is started and pattern 2 requested; 31 ticks bring the index to 31 of 32.\<close>

definition nokick_at_31 :: sequencer where
  "nokick_at_31 =
     the (fire_n 1 31 (the (requestPattern 2
       (play (loadSequence (Some (snapshot_nokick 32)) (the (setBars 2 initial_sequencer)))))))"




text \<open>The kick is set on step 0, and then removed.\<close>

definition kick_on :: sequencer where
  "kick_on = snd (the (setStep Drums ''kick'' 0 True initial_sequencer))"

definition kick_removed :: sequencer where
  "kick_removed = toggleInstrumentRemoved Drums ''kick'' kick_on"

definition kick_flags :: "sequencer \<Rightarrow> bool list" where
  "kick_flags s = the (dict_get (drums (tracks (sequence s))) ''kick'')"

section \<open>The envelope code of the audio engine\<close>

text \<open>
  \<open>generateSynth\<close> schedules five automation events on the voice's gain, at offsets from
  \<open>audioContext.currentTime\<close>. The events are kept in the order of the calls, with their
  values and time offsets.
\<close>

datatype automation = SetValueAtTime rat rat | LinearRampToValueAtTime rat rat

fun event_time :: "automation \<Rightarrow> rat" where
  "event_time (SetValueAtTime v t) = t"
| "event_time (LinearRampToValueAtTime v t) = t"

record synth_args =
  frequency :: rat
  waveform :: string
  duration :: rat
  attack :: rat
  decay :: rat
  sustain :: rat
  release :: rat
  level :: rat
  key :: string

text \<open>The default parameter values of \<open>generateSynth\<close>.\<close>

definition generateSynth_defaults :: "rat \<Rightarrow> synth_args" where
  "generateSynth_defaults f =
     \<lparr>frequency = f, waveform = ''sawtooth'', duration = 0.5, attack = 0.01, decay = 0.3,
      sustain = 0.7, release = 0.5, level = 0.5, key = ''lead''\<rparr>"

definition generateSynth :: "synth_args \<Rightarrow> automation list" where
  "generateSynth a =
     (let peak = max 0 (min 1 (level a));
          sus = max 0 (min 1 (sustain a)) * peak
      in [SetValueAtTime 0 0,
          LinearRampToValueAtTime peak (attack a),
          LinearRampToValueAtTime sus (attack a + decay a),
          SetValueAtTime sus (duration a - release a),
          LinearRampToValueAtTime 0 (duration a)])"

definition playSynthSound :: "string \<Rightarrow> rat \<Rightarrow> synth_args option" where
  "playSynthSound soundName f =
     (if soundName = ''bass'' then
        Some \<lparr>frequency = f * 0.5, waveform = ''sawtooth'', duration = 0.5, attack = 0.01,
              decay = 0.3, sustain = 0.6, release = 0.4, level = 0.45, key = ''bass''\<rparr>
      else if soundName = ''lead'' then
        Some \<lparr>frequency = f, waveform = ''square'', duration = 0.3, attack = 0.02,
              decay = 0.15, sustain = 0.5, release = 0.2, level = 0.35, key = ''lead''\<rparr>
      else if soundName = ''pad'' then
        Some \<lparr>frequency = f, waveform = ''sine'', duration = 1.2, attack = 0.4,
              decay = 0.4, sustain = 0.8, release = 0.8, level = 0.4, key = ''pad''\<rparr>
      else if soundName = ''arp'' then
        Some \<lparr>frequency = f, waveform = ''triangle'', duration = 0.18, attack = 0.01,
              decay = 0.08, sustain = 0.3, release = 0.15, level = 0.3, key = ''arp''\<rparr>
      else None)"

text \<open>The other engine file (\<open>static/js/audio-engine.js\<close>): its \<open>generateSynth\<close> has no
  \<open>level\<close> and \<open>key\<close> parameters (the peak is 1, the sustain level is not clamped), only
  \<open>arp\<close> goes through it, and bass, lead and pad have envelopes of their own, written out
  with literal times.\<close>

definition generateSynth_static :: "synth_args \<Rightarrow> automation list" where
  "generateSynth_static a =
     [SetValueAtTime 0 0,
      LinearRampToValueAtTime 1 (attack a),
      LinearRampToValueAtTime (sustain a) (attack a + decay a),
      SetValueAtTime (sustain a) (duration a - release a),
      LinearRampToValueAtTime 0 (duration a)]"

definition arp_static :: "rat \<Rightarrow> synth_args" where
  "arp_static f =
     \<lparr>frequency = f, waveform = ''triangle'', duration = 0.2, attack = 0.01, decay = 0.1,
      sustain = 0.3, release = 0.2, level = 1, key = ''arp''\<rparr>"

definition generateEnhancedBass :: "automation list" where
  "generateEnhancedBass =
     [SetValueAtTime 0 0, LinearRampToValueAtTime 1 0.01, LinearRampToValueAtTime 0.7 0.1,
      SetValueAtTime 0.7 (0.6 - 0.3), LinearRampToValueAtTime 0 0.6]"

definition generateEnhancedLead :: "automation list" where
  "generateEnhancedLead =
     [SetValueAtTime 0 0, LinearRampToValueAtTime 1 0.02, LinearRampToValueAtTime 0.5 0.1,
      SetValueAtTime 0.5 (0.4 - 0.2), LinearRampToValueAtTime 0 0.4]"

definition generateEnhancedPad :: "automation list" where
  "generateEnhancedPad =
     [SetValueAtTime 0 0, LinearRampToValueAtTime 0.8 0.3,
      SetValueAtTime 0.8 (1.2 - 0.5), LinearRampToValueAtTime 0 1.2]"

text \<open>The ordering of the stage boundaries, as the specification words it.\<close>

definition stages_ordered :: "synth_args \<Rightarrow> bool" where
  "stages_ordered a =
     (attack a \<le> attack a + decay a \<and> attack a + decay a \<le> duration a - release a \<and>
      duration a - release a \<le> duration a)"

section \<open>Frame lemmas\<close>

lemma updateStepInterval_frame [simp]:
  "bpm (updateStepInterval s) = bpm s"
  "sequence (updateStepInterval s) = sequence s"
  "patterns (updateStepInterval s) = patterns s"
  "steps (updateStepInterval s) = steps s"
  "currentStep (updateStepInterval s) = currentStep s"
  "isPlaying (updateStepInterval s) = isPlaying s"
  "synthNotes (updateStepInterval s) = synthNotes s"
  "timeSignature (updateStepInterval s) = timeSignature s"
  "currentSequenceId (updateStepInterval s) = currentSequenceId s"
  by (simp_all add: updateStepInterval_def setIntervalHost_def clearIntervalHost_def Let_def
        split: option.splits)

lemma js_mod_nonneg: "0 \<le> a \<Longrightarrow> 0 < b \<Longrightarrow> js_mod a b = a mod b"
  by (cases "a = 0") (simp_all add: js_mod_def)

lemma js_mod_range: "0 \<le> a \<Longrightarrow> 0 < b \<Longrightarrow> 0 \<le> js_mod a b \<and> js_mod a b < b"
  by (simp add: js_mod_nonneg)

lemma stepsPerBar_pos: "1 \<le> stepsPerBar s"
  by (simp add: stepsPerBar_def)

lemma or_one_pos: "1 \<le> x \<Longrightarrow> or_one x = x"
  by (simp add: or_one_def)

lemma int_prod_pos: "(1::int) \<le> a \<Longrightarrow> 1 \<le> b \<Longrightarrow> 1 \<le> a * b"
  using mult_mono [of 1 a 1 b] by simp

lemma renderTracks_frame [simp]:
  "bpm (renderTracks s) = bpm s"
  "sequence (renderTracks s) = sequence s"
  "patterns (renderTracks s) = patterns s"
  "steps (renderTracks s) = steps s"
  "currentStep (renderTracks s) = currentStep s"
  "isPlaying (renderTracks s) = isPlaying s"
  "timers (renderTracks s) = timers s"
  "stepInterval (renderTracks s) = stepInterval s"
  "nextTimer (renderTracks s) = nextTimer s"
  "timeSignature (renderTracks s) = timeSignature s"
  "currentSequenceId (renderTracks s) = currentSequenceId s"
  by (simp_all add: renderTracks_def Let_def)

lemma resizePattern_frame:
  "resizePattern n p = Some p' \<Longrightarrow> bars p' = bars p \<and> p_removed p' = p_removed p"
  by (auto simp add: resizePattern_def split: option.splits)

lemma resize_slots_frame:
  "resize_slots n js st = Some st' \<Longrightarrow> st' i = Some p' \<Longrightarrow>
     \<exists>p. st i = Some p \<and> bars p' = bars p \<and> p_removed p' = p_removed p"
proof (induction js arbitrary: st)
  case Nil
  then show ?case by simp
next
  case (Cons j js)
  show ?case
  proof (cases "st j")
    case None
    with Cons show ?thesis by simp
  next
    case (Some p)
    with Cons.prems obtain q where q: "resizePattern n p = Some q"
      and r: "resize_slots n js (st(j \<mapsto> q)) = Some st'"
      by (auto split: option.splits)
    from Cons.IH [OF r Cons.prems(2)] obtain p0 where
      p0: "(st(j \<mapsto> q)) i = Some p0" "bars p' = bars p0" "p_removed p' = p_removed p0"
      by blast
    show ?thesis
    proof (cases "i = j")
      case True
      with p0 Some resizePattern_frame [OF q] show ?thesis by simp
    next
      case False
      with p0 show ?thesis by simp
    qed
  qed
qed

lemma resizePatternsTo_SomeD:
  "resizePatternsTo n s = Some s' \<Longrightarrow>
     \<exists>st. resize_slots n [1, 2, 3, 4] (store (patterns s)) = Some st \<and>
          s' = s\<lparr>patterns := (patterns s)\<lparr>store := st\<rparr>\<rparr>"
  by (auto simp add: resizePatternsTo_def split: option.splits)

lemma resizePatternsTo_bars:
  assumes "resizePatternsTo n s = Some s'" and "\<forall>i p. store (patterns s) i = Some p \<longrightarrow> 1 \<le> bars p"
  shows "\<forall>i p. store (patterns s') i = Some p \<longrightarrow> 1 \<le> bars p"
proof (intro allI impI)
  fix i p assume a: "store (patterns s') i = Some p"
  from resizePatternsTo_SomeD [OF assms(1)] obtain st where
    st: "resize_slots n [1, 2, 3, 4] (store (patterns s)) = Some st"
    and s': "s' = s\<lparr>patterns := (patterns s)\<lparr>store := st\<rparr>\<rparr>" by blast
  from a s' have "st i = Some p" by simp
  from resize_slots_frame [OF st this] assms(2) show "1 \<le> bars p" by auto
qed

lemma resizePatternsTo_frame:
  assumes "resizePatternsTo n s = Some s'"
  shows "isPlaying s' = isPlaying s" "currentStep s' = currentStep s" "steps s' = steps s"
    "timers s' = timers s" "stepInterval s' = stepInterval s" "bpm s' = bpm s"
    "sequence s' = sequence s" "synthNotes s' = synthNotes s" "nextTimer s' = nextTimer s"
    "timeSignature s' = timeSignature s" "currentSequenceId s' = currentSequenceId s"
    "active (patterns s') = active (patterns s)" "pending (patterns s') = pending (patterns s)"
  using resizePatternsTo_SomeD [OF assms] by auto

lemma resize_synths_upto_frame:
  "bars (resize_synths_upto n ns p) = bars p \<and>
   p_removed (resize_synths_upto n ns p) = p_removed p"
  by (induction ns arbitrary: p) (auto split: option.splits)

lemma resizePattern_thrown_frame:
  "bars (resizePattern_thrown n p) = bars p \<and> p_removed (resizePattern_thrown n p) = p_removed p"
  by (simp add: resizePattern_thrown_def resize_synths_upto_frame split: option.splits)

lemma resize_slots_thrown_frame:
  "resize_slots_thrown n js st i = Some p' \<Longrightarrow>
     \<exists>p. st i = Some p \<and> bars p' = bars p \<and> p_removed p' = p_removed p"
proof (induction js arbitrary: st)
  case Nil
  then show ?case by simp
next
  case (Cons j js)
  show ?case
  proof (cases "st j")
    case None
    with Cons show ?thesis by simp
  next
    case (Some p)
    show ?thesis
    proof (cases "resizePattern n p")
      case None
      with Some Cons.prems resizePattern_thrown_frame [of n p] show ?thesis
        by (cases "i = j") simp_all
    next
      case q: (Some q)
      with Some Cons.prems have "resize_slots_thrown n js (st(j \<mapsto> q)) i = Some p'" by simp
      from Cons.IH [OF this] obtain p0 where
        p0: "(st(j \<mapsto> q)) i = Some p0" "bars p' = bars p0" "p_removed p' = p_removed p0"
        by blast
      with Some resizePattern_frame [OF q] show ?thesis by (cases "i = j") simp_all
    qed
  qed
qed

lemma resizePatternsTo_thrown_frame [simp]:
  "isPlaying (resizePatternsTo_thrown n s) = isPlaying s"
  "currentStep (resizePatternsTo_thrown n s) = currentStep s"
  "steps (resizePatternsTo_thrown n s) = steps s"
  "timers (resizePatternsTo_thrown n s) = timers s"
  "stepInterval (resizePatternsTo_thrown n s) = stepInterval s"
  "bpm (resizePatternsTo_thrown n s) = bpm s"
  "sequence (resizePatternsTo_thrown n s) = sequence s"
  "synthNotes (resizePatternsTo_thrown n s) = synthNotes s"
  "nextTimer (resizePatternsTo_thrown n s) = nextTimer s"
  "timeSignature (resizePatternsTo_thrown n s) = timeSignature s"
  "currentSequenceId (resizePatternsTo_thrown n s) = currentSequenceId s"
  "active (patterns (resizePatternsTo_thrown n s)) = active (patterns s)"
  "pending (patterns (resizePatternsTo_thrown n s)) = pending (patterns s)"
  by (simp_all add: resizePatternsTo_thrown_def)

lemma resizePatternsTo_thrown_bars:
  assumes "\<forall>i p. store (patterns s) i = Some p \<longrightarrow> 1 \<le> bars p"
  shows "\<forall>i p. store (patterns (resizePatternsTo_thrown n s)) i = Some p \<longrightarrow> 1 \<le> bars p"
proof (intro allI impI)
  fix i p assume "store (patterns (resizePatternsTo_thrown n s)) i = Some p"
  then have "resize_slots_thrown n [1, 2, 3, 4] (store (patterns s)) i = Some p"
    by (simp add: resizePatternsTo_thrown_def)
  from resize_slots_thrown_frame [OF this] assms show "1 \<le> bars p" by auto
qed

lemma saveCurrentPattern_SomeD:
  "saveCurrentPattern s = Some s' \<Longrightarrow>
     \<exists>st. store (patterns s) (active (patterns s)) = Some st \<and>
          s' = s\<lparr>patterns := (patterns s)\<lparr>store := (store (patterns s))(active (patterns s) \<mapsto>
                   st\<lparr>p_tracks := tracks (sequence s),
                      p_removed := removed (sequence s),
                      p_synthNotes := synthNotes s,
                      bars := getBars s\<rparr>)\<rparr>\<rparr>"
  by (auto simp add: saveCurrentPattern_def Let_def split: option.splits)

lemma saveCurrentPattern_bars:
  assumes "saveCurrentPattern s = Some s'" and "\<forall>i p. store (patterns s) i = Some p \<longrightarrow> 1 \<le> bars p"
  shows "\<forall>i p. store (patterns s') i = Some p \<longrightarrow> 1 \<le> bars p"
  using saveCurrentPattern_SomeD [OF assms(1)] assms(2)
  by (auto simp add: getBars_def or_one_def split: if_splits)

lemma applyPattern_cases:
  assumes "applyPattern i s = Some s'"
  obtains (absent) "store (patterns s) i = None" "s' = s"
  | (switch) s1 p s3 p' where
      "saveCurrentPattern s = Some s1" "store (patterns s1) i = Some p"
      "resizePatternsTo (or_one (bars p) * stepsPerBar s1)
         (s1\<lparr>steps := or_one (bars p) * stepsPerBar s1,
             sequence := (sequence s1)\<lparr>seq_steps := or_one (bars p) * stepsPerBar s1\<rparr>\<rparr>) = Some s3"
      "store (patterns s3) i = Some p'"
      "s' = renderTracks
              (s3\<lparr>sequence := (sequence s3)\<lparr>tracks := p_tracks p', removed := p_removed p'\<rparr>,
                  synthNotes := p_synthNotes p',
                  patterns := (patterns s3)\<lparr>active := i\<rparr>\<rparr>)"
  using assms
  by (auto simp add: applyPattern_def Let_def split: option.splits)

lemma applyPattern_frame:
  assumes "applyPattern i s = Some s'"
  shows "isPlaying s' = isPlaying s \<and> currentStep s' = currentStep s \<and> timers s' = timers s \<and>
         stepInterval s' = stepInterval s \<and> bpm s' = bpm s \<and> nextTimer s' = nextTimer s \<and>
         timeSignature s' = timeSignature s \<and> currentSequenceId s' = currentSequenceId s \<and>
         seq_bpm (sequence s') = seq_bpm (sequence s) \<and> volume (sequence s') = volume (sequence s) \<and>
         effects (sequence s') = effects (sequence s) \<and> seq_name (sequence s') = seq_name (sequence s) \<and>
         pending (patterns s') = pending (patterns s)"
  using assms
proof (cases rule: applyPattern_cases)
  case absent
  then show ?thesis by simp
next
  case (switch s1 p s3 p')
  from saveCurrentPattern_SomeD [OF switch(1)] obtain st where
    s1: "s1 = s\<lparr>patterns := (patterns s)\<lparr>store := (store (patterns s))(active (patterns s) \<mapsto>
                   st\<lparr>p_tracks := tracks (sequence s),
                      p_removed := removed (sequence s),
                      p_synthNotes := synthNotes s,
                      bars := getBars s\<rparr>)\<rparr>\<rparr>" by blast
  from resizePatternsTo_frame [OF switch(3)] switch(5) s1 show ?thesis by simp
qed

lemma applyPattern_steps:
  assumes "applyPattern i s = Some s'" and "1 \<le> steps s"
    and "\<forall>i p. store (patterns s) i = Some p \<longrightarrow> 1 \<le> bars p"
  shows "1 \<le> steps s' \<and> (\<forall>i p. store (patterns s') i = Some p \<longrightarrow> 1 \<le> bars p)"
  using assms(1)
proof (cases rule: applyPattern_cases)
  case absent
  with assms show ?thesis by simp
next
  case (switch s1 p s3 p')
  have b1: "\<forall>i p. store (patterns s1) i = Some p \<longrightarrow> 1 \<le> bars p"
    by (rule saveCurrentPattern_bars [OF switch(1) assms(3)])
  with switch(2) have "1 \<le> bars p" by blast
  then have n: "1 \<le> or_one (bars p) * stepsPerBar s1"
    by (simp add: or_one_pos int_prod_pos stepsPerBar_pos)
  have b3: "\<forall>i p. store (patterns s3) i = Some p \<longrightarrow> 1 \<le> bars p"
    by (rule resizePatternsTo_bars [OF switch(3)]) (use b1 in simp)
  from resizePatternsTo_frame(3) [OF switch(3)] n switch(5) b3 show ?thesis by simp
qed

section \<open>The invariant of the reachable states\<close>

lemma advance_frame [simp]:
  "isPlaying (advance s) = isPlaying s" "steps (advance s) = steps s"
  "timers (advance s) = timers s" "stepInterval (advance s) = stepInterval s"
  "patterns (advance s) = patterns s" "bpm (advance s) = bpm s"
  "sequence (advance s) = sequence s" "synthNotes (advance s) = synthNotes s"
  "currentStep (advance s) = js_mod (currentStep s + 1) (steps s)"
  by (simp_all add: advance_def)

lemma wf_play: "wf_state c s \<Longrightarrow> \<not> isPlaying s \<Longrightarrow> wf_state c (play s)"
  by (simp add: wf_state_def play_def setIntervalHost_def Let_def)

lemma wf_stop: "wf_state c s \<Longrightarrow> wf_state c' (stop s)"
  by (auto simp add: wf_state_def stop_def clearIntervalHost_def Let_def split: option.splits if_splits)

lemma wf_updateStepInterval: "wf_state c s \<Longrightarrow> wf_state c (updateStepInterval s)"
  by (auto simp add: wf_state_def updateStepInterval_def clearIntervalHost_def setIntervalHost_def
        Let_def split: option.splits if_splits)

lemma wf_setBpm: "wf_state c s \<Longrightarrow> wf_state c (setBpm b s)"
proof -
  assume w: "wf_state c s"
  let ?s2 = "s\<lparr>bpm := max 60 (min 200 b), sequence := (sequence s)\<lparr>seq_bpm := max 60 (min 200 b)\<rparr>\<rparr>"
  from w have w2: "wf_state c ?s2" by (simp add: wf_state_def)
  have "setBpm b s = (if isPlaying s then updateStepInterval ?s2 else ?s2)"
    by (simp add: setBpm_def Let_def)
  with w2 wf_updateStepInterval [OF w2] show ?thesis by simp
qed

lemma wf_advance:
  assumes "wf_state c s" "isPlaying s"
  shows "wf_state c (advance s)"
proof -
  from assms have "0 \<le> currentStep s + 1" "0 < steps s" by (simp_all add: wf_state_def)
  from js_mod_range [OF this] assms show ?thesis by (simp add: wf_state_def)
qed

lemma wf_tick:
  assumes w: "wf_state c s" and t: "t \<in> set (timers s)" and k: "tick k s = Some (vs, s')"
  shows "wf_state c s'"
proof -
  from w t have pl: "isPlaying s" by (auto simp add: wf_state_def split: if_splits)
  show ?thesis
  proof (cases "k = PlayTick \<and> (\<exists>i. pending (patterns s) = Some i \<and> currentStep s = steps s - 1 \<and> i \<noteq> 0)")
    case False
    with k have "s' = advance s"
      by (cases k) (auto simp add: tick_def Let_def split: option.splits if_splits)
    with wf_advance [OF w pl] show ?thesis by simp
  next
    case True
    then obtain i where i: "pending (patterns s) = Some i" "currentStep s = steps s - 1" "i \<noteq> 0"
      and kp: "k = PlayTick" by blast
    with k obtain s1 where a: "applyPattern i s = Some s1"
      and s': "s' = advance (s1\<lparr>patterns := (patterns s1)\<lparr>pending := None\<rparr>\<rparr>)"
      by (auto simp add: tick_def Let_def split: option.splits)
    from w have st: "1 \<le> steps s" "\<forall>i p. store (patterns s) i = Some p \<longrightarrow> 1 \<le> bars p"
      by (simp_all add: wf_state_def)
    from applyPattern_steps [OF a st] applyPattern_frame [OF a] w pl
    have "0 \<le> currentStep s1 + 1" "0 < steps s1" by (simp_all add: wf_state_def)
    from js_mod_range [OF this] applyPattern_steps [OF a st] applyPattern_frame [OF a] w pl
    show ?thesis unfolding s' by (simp add: wf_state_def)
  qed
qed

lemma wf_requestPattern:
  assumes w: "wf_state c s" and r: "requestPattern i s = Some s'"
  shows "wf_state c s'"
proof (cases "i = active (patterns s) \<or> isPlaying s")
  case True
  with r w show ?thesis by (auto simp add: requestPattern_def wf_state_def split: if_splits)
next
  case False
  with r have a: "applyPattern i s = Some s'" by (simp add: requestPattern_def)
  from w have st: "1 \<le> steps s" "\<forall>i p. store (patterns s) i = Some p \<longrightarrow> 1 \<le> bars p"
    by (simp_all add: wf_state_def)
  from applyPattern_steps [OF a st] applyPattern_frame [OF a] w False
  show ?thesis by (simp add: wf_state_def)
qed

lemma wf_state_transfer:
  assumes "wf_state c s"
    and "isPlaying s' = isPlaying s" "timers s' = timers s" "stepInterval s' = stepInterval s"
    and "bpm s' = bpm s" "seq_bpm (sequence s') = seq_bpm (sequence s)"
    and "perInstrument (volume (sequence s')) = perInstrument (volume (sequence s))"
    and "\<forall>i p. store (patterns s') i = Some p \<longrightarrow> 1 \<le> bars p"
    and "1 \<le> steps s'" "0 \<le> currentStep s'" "c \<Longrightarrow> currentStep s' < steps s'"
    and "\<not> isPlaying s \<Longrightarrow> currentStep s' = 0"
  shows "wf_state c s'"
  using assms unfolding wf_state_def by simp

lemma store_update_bars:
  assumes "\<forall>i p. st i = Some p \<longrightarrow> 1 \<le> bars p" and "1 \<le> bars q"
  shows "\<forall>i p. (st(j \<mapsto> q)) i = Some p \<longrightarrow> (1::int) \<le> bars p"
  using assms by simp

lemma wf_bars: "wf_state c s \<Longrightarrow> \<forall>i p. store (patterns s) i = Some p \<longrightarrow> 1 \<le> bars p"
  unfolding wf_state_def by simp

lemma setBars_live_steps [simp]: "steps (setBars_live N s) = N"
  by (simp add: setBars_live_def Let_def)

lemma stepsPerBar_patterns [simp]: "stepsPerBar (s\<lparr>patterns := x\<rparr>) = stepsPerBar s"
  by (simp add: stepsPerBar_def)

lemma setBars_cases:
  assumes "setBars b s = Some s'"
  obtains (noslot) "store (patterns s) (active (patterns s)) = None" "s' = s"
  | (same) pat where "store (patterns s) (active (patterns s)) = Some pat"
      "max 1 (min 16 b) * stepsPerBar s = steps s"
      "s' = s\<lparr>patterns := (patterns s)\<lparr>store :=
                (store (patterns s))(active (patterns s) \<mapsto> pat\<lparr>bars := max 1 (min 16 b)\<rparr>)\<rparr>\<rparr>"
  | (changed) pat where "store (patterns s) (active (patterns s)) = Some pat"
      "max 1 (min 16 b) * stepsPerBar s \<noteq> steps s"
      "resizePatternsTo (max 1 (min 16 b) * stepsPerBar s)
         (setBars_live (max 1 (min 16 b) * stepsPerBar s)
            (s\<lparr>patterns := (patterns s)\<lparr>store :=
                (store (patterns s))(active (patterns s) \<mapsto> pat\<lparr>bars := max 1 (min 16 b)\<rparr>)\<rparr>\<rparr>))
       = Some s'"
  using assms
  by (auto simp add: setBars_def Let_def split: option.splits if_splits)

lemma setBars_thrown_cases:
  obtains (noslot) "store (patterns s) (active (patterns s)) = None" "setBars_thrown b s = s"
  | (same) pat where "store (patterns s) (active (patterns s)) = Some pat"
      "max 1 (min 16 b) * stepsPerBar s = steps s"
      "setBars_thrown b s = s\<lparr>patterns := (patterns s)\<lparr>store :=
                (store (patterns s))(active (patterns s) \<mapsto> pat\<lparr>bars := max 1 (min 16 b)\<rparr>)\<rparr>\<rparr>"
  | (changed) pat where "store (patterns s) (active (patterns s)) = Some pat"
      "max 1 (min 16 b) * stepsPerBar s \<noteq> steps s"
      "setBars_thrown b s =
       resizePatternsTo_thrown (max 1 (min 16 b) * stepsPerBar s)
         (setBars_live (max 1 (min 16 b) * stepsPerBar s)
            (s\<lparr>patterns := (patterns s)\<lparr>store :=
                (store (patterns s))(active (patterns s) \<mapsto> pat\<lparr>bars := max 1 (min 16 b)\<rparr>)\<rparr>\<rparr>))"
  by (cases "store (patterns s) (active (patterns s))";
      cases "max 1 (min 16 b) * stepsPerBar s = steps s")
     (auto simp add: setBars_thrown_def Let_def)

lemma wf_store_bars:
  assumes "wf_state c s" and "1 \<le> bars q"
  shows "wf_state c (s\<lparr>patterns := (patterns s)\<lparr>store := (store (patterns s))(j \<mapsto> q)\<rparr>\<rparr>)"
proof -
  have bb: "\<forall>i p. store (patterns (s\<lparr>patterns := (patterns s)\<lparr>store := (store (patterns s))(j \<mapsto> q)\<rparr>\<rparr>)) i
            = Some p \<longrightarrow> 1 \<le> bars p"
    using store_update_bars [OF wf_bars [OF assms(1)] assms(2), of j] by simp
  show ?thesis
    by (rule wf_state_transfer [OF assms(1) _ _ _ _ _ _ bb])
       (use assms(1) in \<open>simp_all add: wf_state_def\<close>)
qed

lemma wf_setBars_live:
  assumes w: "wf_state c s" and n: "1 \<le> N"
  shows "wf_state c (setBars_live N s)" and "steps (setBars_live N s) = N"
proof -
  from w have "0 \<le> currentStep s" by (simp add: wf_state_def)
  from js_mod_range [OF this, of N] n have r: "0 \<le> js_mod (currentStep s) N" "js_mod (currentStep s) N < N"
    by simp_all
  have z: "\<not> isPlaying s \<Longrightarrow> js_mod (currentStep s) N = 0"
    using w by (simp add: wf_state_def js_mod_def)
  define s4 where "s4 = (renderTracks
      (s\<lparr>steps := N,
         sequence := (sequence s)\<lparr>seq_steps := N,
            tracks := \<lparr>drums = dict_map_values (\<lambda>arr. resize arr N False) (drums (tracks (sequence s))),
                       synths = dict_map_values (\<lambda>arr. resize arr N False) (synths (tracks (sequence s)))\<rparr>\<rparr>,
         synthNotes := dict_map_values (\<lambda>arr. resize arr N 69) (synthNotes s)\<rparr>))
      \<lparr>currentStep := js_mod (currentStep s) N\<rparr>"
  have e: "setBars_live N s = (if isPlaying s then updateStepInterval s4 else s4)"
    by (simp add: setBars_live_def Let_def s4_def)
  have bb: "\<forall>i p. store (patterns s4) i = Some p \<longrightarrow> 1 \<le> bars p"
    using wf_bars [OF w] by (simp add: s4_def)
  have w4: "wf_state c s4"
    by (rule wf_state_transfer [OF w _ _ _ _ _ _ bb])
       (use n r z in \<open>simp_all add: s4_def\<close>)
  show "wf_state c (setBars_live N s)"
    unfolding e using w4 wf_updateStepInterval [OF w4] by simp
  show "steps (setBars_live N s) = N"
    unfolding e by (simp add: s4_def)
qed

lemma wf_resizePatternsTo:
  assumes w: "wf_state c s" and r: "resizePatternsTo n s = Some s'"
  shows "wf_state c s'"
  by (rule wf_state_transfer [OF w _ _ _ _ _ _ resizePatternsTo_bars [OF r wf_bars [OF w]]])
     (use w in \<open>simp_all add: resizePatternsTo_frame [OF r] wf_state_def\<close>)

lemma wf_setBars:
  assumes w: "wf_state c s" and b: "setBars b s = Some s'"
  shows "wf_state c s'"
  using b
proof (cases rule: setBars_cases)
  case noslot
  with w show ?thesis by simp
next
  case (same pat)
  show ?thesis unfolding same(3) by (rule wf_store_bars [OF w]) simp
next
  case (changed pat)
  let ?n = "max 1 (min 16 b) * stepsPerBar s"
  have n: "1 \<le> ?n" by (rule int_prod_pos) (simp_all add: stepsPerBar_pos)
  have w1: "wf_state c (s\<lparr>patterns := (patterns s)\<lparr>store :=
                (store (patterns s))(active (patterns s) \<mapsto> pat\<lparr>bars := max 1 (min 16 b)\<rparr>)\<rparr>\<rparr>)"
    by (rule wf_store_bars [OF w]) simp
  from wf_resizePatternsTo [OF wf_setBars_live(1) [OF w1 n] changed(3)] show ?thesis .
qed

lemma wf_resizePatternsTo_thrown:
  assumes w: "wf_state c s"
  shows "wf_state c (resizePatternsTo_thrown n s)"
  by (rule wf_state_transfer [OF w _ _ _ _ _ _ resizePatternsTo_thrown_bars [OF wf_bars [OF w]]])
     (use w in \<open>simp_all add: wf_state_def\<close>)

lemma wf_setBars_thrown:
  assumes w: "wf_state c s"
  shows "wf_state c (setBars_thrown b s)"
proof (cases rule: setBars_thrown_cases [of s b])
  case noslot
  with w show ?thesis by simp
next
  case (same pat)
  show ?thesis unfolding same(3) by (rule wf_store_bars [OF w]) simp
next
  case (changed pat)
  let ?n = "max 1 (min 16 b) * stepsPerBar s"
  have n: "1 \<le> ?n" by (rule int_prod_pos) (simp_all add: stepsPerBar_pos)
  have w1: "wf_state c (s\<lparr>patterns := (patterns s)\<lparr>store :=
                (store (patterns s))(active (patterns s) \<mapsto> pat\<lparr>bars := max 1 (min 16 b)\<rparr>)\<rparr>\<rparr>)"
    by (rule wf_store_bars [OF w]) simp
  show ?thesis
    unfolding changed(3) by (rule wf_resizePatternsTo_thrown [OF wf_setBars_live(1) [OF w1 n]])
qed

lemma wf_onTsChange_thrown:
  assumes w: "wf_state c s"
  shows "wf_state c (onTsChange_thrown n d s)"
proof -
  from w have "wf_state c (s\<lparr>timeSignature := \<lparr>ts_num = n, ts_den = d\<rparr>\<rparr>)"
    by (simp add: wf_state_def)
  then show ?thesis unfolding onTsChange_thrown_def Let_def by (rule wf_setBars_thrown)
qed

lemma wf_weaken: "wf_state c s \<Longrightarrow> wf_state False s"
  by (simp add: wf_state_def)

lemma wf_applyPattern_thrown:
  assumes w: "wf_state c s" and st: "c \<Longrightarrow> \<not> isPlaying s"
  shows "wf_state c (applyPattern_thrown i s)"
proof (cases "saveCurrentPattern s")
  case None
  with w show ?thesis by (simp add: applyPattern_thrown_def)
next
  case (Some s1)
  from saveCurrentPattern_SomeD [OF Some] obtain q where
    s1: "s1 = s\<lparr>patterns := (patterns s)\<lparr>store := (store (patterns s))(active (patterns s) \<mapsto>
                   q\<lparr>p_tracks := tracks (sequence s),
                      p_removed := removed (sequence s),
                      p_synthNotes := synthNotes s,
                      bars := getBars s\<rparr>)\<rparr>\<rparr>" by blast
  have b1: "\<forall>i p. store (patterns s1) i = Some p \<longrightarrow> 1 \<le> bars p"
    by (rule saveCurrentPattern_bars [OF Some wf_bars [OF w]])
  have w1: "wf_state c s1"
    by (rule wf_state_transfer [OF w _ _ _ _ _ _ b1]) (use w in \<open>simp_all add: s1 wf_state_def\<close>)
  show ?thesis
  proof (cases "store (patterns s1) i")
    case None
    with Some w1 show ?thesis by (simp add: applyPattern_thrown_def)
  next
    case p: (Some p)
    with b1 have "1 \<le> bars p" by blast
    then have n: "1 \<le> or_one (bars p) * stepsPerBar s1"
      by (simp add: or_one_pos int_prod_pos stepsPerBar_pos)
    let ?s2 = "s1\<lparr>steps := or_one (bars p) * stepsPerBar s1,
                   sequence := (sequence s1)\<lparr>seq_steps := or_one (bars p) * stepsPerBar s1\<rparr>\<rparr>"
    have z: "c \<Longrightarrow> currentStep s1 = 0" using st w1 by (simp add: wf_state_def s1)
    have b2: "\<forall>i p. store (patterns ?s2) i = Some p \<longrightarrow> 1 \<le> bars p" using b1 by simp
    have w2: "wf_state c ?s2"
      by (rule wf_state_transfer [OF w1 _ _ _ _ _ _ b2])
         (use w1 n z in \<open>simp_all add: wf_state_def\<close>)
    have "applyPattern_thrown i s = resizePatternsTo_thrown (steps ?s2) ?s2"
      using Some p by (simp add: applyPattern_thrown_def Let_def)
    with wf_resizePatternsTo_thrown [OF w2] show ?thesis by simp
  qed
qed

lemma wf_tick_thrown:
  assumes "wf_state c s"
  shows "wf_state False (tick_thrown s)"
  using wf_weaken [OF assms] wf_applyPattern_thrown [of False s]
  by (simp add: tick_thrown_def split: option.splits)

lemma wf_request_thrown:
  assumes w: "wf_state c s" and r: "requestPattern i s = None"
  shows "wf_state c (applyPattern_thrown i s)"
proof -
  from r have "\<not> isPlaying s" by (auto simp add: requestPattern_def split: if_splits)
  with w show ?thesis by (intro wf_applyPattern_thrown)
qed

lemma wf_onTsChange:
  assumes w: "wf_state c s" and b: "onTsChange n d s = Some s'"
  shows "wf_state c s'"
proof -
  from w have "wf_state c (s\<lparr>timeSignature := \<lparr>ts_num = n, ts_den = d\<rparr>\<rparr>)"
    by (simp add: wf_state_def)
  moreover from b have "setBars (getBars (s\<lparr>timeSignature := \<lparr>ts_num = n, ts_den = d\<rparr>\<rparr>))
      (s\<lparr>timeSignature := \<lparr>ts_num = n, ts_den = d\<rparr>\<rparr>) = Some s'"
    by (simp add: onTsChange_def applyTimeSignature_def)
  ultimately show ?thesis by (rule wf_setBars)
qed

lemma wf_renderTracks: "wf_state c s \<Longrightarrow> wf_state c (renderTracks s)"
  by (simp add: wf_state_def)

lemma wf_loadSequence: "wf_state c s \<Longrightarrow> wf_state c (loadSequence sd s)"
proof (cases sd)
  case None
  then show "wf_state c s \<Longrightarrow> ?thesis" by (simp add: loadSequence_def)
next
  case (Some d)
  assume w: "wf_state c s"
  let ?q = "merge_snapshot (sequence s) d"
  let ?q1 = "?q\<lparr>volume := (volume ?q)\<lparr>perInstrument :=
                        (case perInstrument (volume ?q) of
                           None \<Rightarrow> Some default_perInstrument
                         | Some x \<Rightarrow> Some x)\<rparr>\<rparr>"
  let ?s1 = "s\<lparr>sequence := ?q1,
                      currentSequenceId := (case sn_id d of None \<Rightarrow> None | Some x \<Rightarrow> x)\<rparr>"
  let ?s1' = "?s1\<lparr>sequence := (sequence ?s1)\<lparr>seq_bpm := bpm s\<rparr>\<rparr>"
  from w have w1: "wf_state c ?s1'" by (auto simp add: wf_state_def split: option.splits)
  have e: "setBpm b ?s1 = setBpm b ?s1'" for b
    by (simp add: setBpm_def Let_def)
  have "loadSequence sd s = renderTracks (setBpm (seq_bpm ?q1) ?s1')"
    unfolding Some e [symmetric] by (simp add: loadSequence_def Let_def)
  with wf_renderTracks [OF wf_setBpm [OF w1]] show ?thesis by simp
qed

lemma wf_clearSequence: "wf_state c s \<Longrightarrow> wf_state c (clearSequence s)"
  by (simp add: wf_state_def clearSequence_def)

lemma wf_newSequence: "wf_state c s \<Longrightarrow> wf_state c (newSequence s)"
  by (simp add: wf_state_def clearSequence_def newSequence_def)

lemma wf_toggleInstrumentRemoved: "wf_state c s \<Longrightarrow> wf_state c (toggleInstrumentRemoved sct sound s)"
  by (simp add: wf_state_def toggleInstrumentRemoved_def Let_def)

lemma wf_setInstrumentVolume:
  "wf_state c s \<Longrightarrow> setInstrumentVolume sct sound v s = Some s' \<Longrightarrow> wf_state c s'"
  by (auto simp add: wf_state_def setInstrumentVolume_def split: option.splits)

lemma wf_setStep: "wf_state c s \<Longrightarrow> setStep sct sound k on s = Some (vs, s') \<Longrightarrow> wf_state c s'"
  by (auto simp add: wf_state_def setStep_def split: option.splits)

lemma wf_toggleStep: "wf_state c s \<Longrightarrow> toggleStep sct sound k s = Some (vs, s') \<Longrightarrow> wf_state c s'"
  by (auto simp add: wf_state_def toggleStep_def Let_def split: option.splits)

lemma wf_setNote: "wf_state c s \<Longrightarrow> setNote sound k m s = Some s' \<Longrightarrow> wf_state c s'"
  by (auto simp add: wf_state_def setNote_def split: option.splits)

lemma wf_setLevel: "wf_state c s \<Longrightarrow> wf_state c (setLevel sl v s)"
  by (cases sl) (simp_all add: wf_state_def)

lemma wf_saved: "wf_state c s \<Longrightarrow> wf_state c (saved nm i s)"
  by (simp add: wf_state_def saved_def)

lemma createEmptyPattern_bars [simp]: "bars (createEmptyPattern s) = 1"
  by (simp add: createEmptyPattern_def Let_def)

lemma initial_fields:
  "isPlaying initial_sequencer = False" "currentStep initial_sequencer = 0"
  "steps initial_sequencer = 16" "bpm initial_sequencer = 120"
  "timers initial_sequencer = []" "stepInterval initial_sequencer = None"
  "seq_bpm (sequence initial_sequencer) = 120"
  "perInstrument (volume (sequence initial_sequencer)) = Some default_perInstrument"
  "active (patterns initial_sequencer) = 1" "pending (patterns initial_sequencer) = None"
  "nextTimer initial_sequencer = 1"
  "timeSignature initial_sequencer = \<lparr>ts_num = 4, ts_den = 4\<rparr>"
  by (simp_all add: initial_sequencer_def constructed_def Let_def)

lemma initial_store:
  "store (patterns initial_sequencer) i =
     (if i \<in> {1, 2, 3, 4} then Some (createEmptyPattern constructed) else None)"
  by (simp add: initial_sequencer_def Let_def)

lemma wf_initial: "wf_state c initial_sequencer"
  unfolding wf_state_def initial_fields initial_store
  by (simp split: if_splits)

lemma reachable_wf: "reached c s \<Longrightarrow> wf_state c s"
proof (induction rule: reached.induct)
  case (r_init c)
  show ?case by (rule wf_initial)
next
  case (r_tick c s t vs s')
  then show ?case by (auto intro: wf_tick)
next
  case (r_tick_throws c s t)
  then show ?case by (auto intro: wf_tick_thrown)
qed (auto intro: wf_play wf_stop wf_setBpm wf_setBars wf_setBars_thrown wf_onTsChange
       wf_onTsChange_thrown wf_requestPattern wf_request_thrown
       wf_loadSequence wf_clearSequence wf_newSequence wf_toggleInstrumentRemoved
       wf_setInstrumentVolume wf_setStep wf_toggleStep wf_setNote wf_setLevel wf_saved)

section \<open>The constructor\<close>

lemma saved_empty:
  "(createEmptyPattern constructed)\<lparr>p_tracks := tracks (sequence constructed),
      p_removed := removed (sequence constructed), p_synthNotes := synthNotes constructed,
      bars := 1\<rparr> = createEmptyPattern constructed"
  by (simp add: createEmptyPattern_def constructed_def)

lemma renderTracks_constructed: "renderTracks constructed = constructed"
  by (simp add: renderTracks_def constructed_def synth_names_def default_removed_def
      ensure_notes_def dict_get_def dict_keys_def is_removed_def)

lemma initialize: "initializeSequencer constructed = Some initial_sequencer"
proof -
  let ?e = "createEmptyPattern constructed"
  let ?m = "[1 \<mapsto> ?e, 2 \<mapsto> ?e, 3 \<mapsto> ?e, (4::int) \<mapsto> ?e]"
  have u: "updateStepInterval constructed = constructed"
    by (simp add: updateStepInterval_def constructed_def)
  have m: "?m(1 \<mapsto> ?e) = ?m"
    by (rule ext) simp
  have f: "sequence initial_sequencer = sequence constructed"
    "synthNotes initial_sequencer = synthNotes constructed"
    "patterns initial_sequencer = \<lparr>active = 1, pending = None, store = ?m\<rparr>"
    by (simp_all add: initial_sequencer_def Let_def)
  have g: "getBars initial_sequencer = 1"
    by (simp add: getBars_def f or_one_def)
  have "saveCurrentPattern initial_sequencer =
      Some (initial_sequencer\<lparr>patterns := (patterns initial_sequencer)\<lparr>store := ?m(1 \<mapsto>
         ?e\<lparr>p_tracks := tracks (sequence constructed),
      p_removed := removed (sequence constructed), p_synthNotes := synthNotes constructed,
      bars := 1\<rparr>)\<rparr>\<rparr>)"
    unfolding saveCurrentPattern_def Let_def g unfolding f by simp
  also have "\<dots> = Some initial_sequencer"
    unfolding saved_empty m by (simp add: initial_sequencer_def Let_def)
  finally have "saveCurrentPattern initial_sequencer = Some initial_sequencer" .
  moreover have "initializeSequencer constructed = saveCurrentPattern initial_sequencer"
    unfolding initializeSequencer_def renderTracks_constructed u Let_def initial_sequencer_def
    by (simp add: constructed_def)
  ultimately show ?thesis by simp
qed

section \<open>Tempo\<close>

text \<open>
  C8. For every integer \<open>t\<close>, \<open>setBpm t\<close> stores \<open>min 200 (max 60 t)\<close> both in the
  transport's \<open>bpm\<close> and in the sequence's \<open>bpm\<close>; the operation is total, no input is
  rejected.
\<close>

theorem setBpm_clamps:
  "bpm (setBpm t s) = min 200 (max 60 t) \<and>
   seq_bpm (sequence (setBpm t s)) = min 200 (max 60 t)"
  by (simp add: setBpm_def Let_def)

section \<open>The step index stays in range\<close>

text \<open>
  Called directly on a playing sequencer, \<open>applyPattern\<close> can leave the step index outside
  the new step count: it sets \<open>steps\<close> and does not touch \<open>currentStep\<close>. At step 16 of a
  32-step pattern, switching to the one-bar slot 2 gives 16 steps with the index still 16.
  The same happens without playback when a timer orphaned by a second \<open>play\<close> keeps
  advancing the index after \<open>stop\<close> and \<open>requestPattern\<close> then applies at once.

  It also happens on the page's own path when the loop-end tick throws. Two bars are set, a
  snapshot without the \<open>kick\<close> track is loaded, playback is started and pattern 2
  requested. The tick at step 31 fires its voices, and \<open>applyPattern\<close> saves the live
  tracks into slot 1, sets 16 steps and throws in \<open>resizePatternsTo\<close>; the index is not
  advanced and stays at 31.
\<close>

theorem direct_applyPattern_leaves_range:
  "transport_view two_bars_at_16 = (True, 16, 1, None) \<and>
   step_position two_bars_at_16 = (16, 32) \<and>
   map_option step_position (applyPattern 2 two_bars_at_16) = Some (16, 16) \<and>
   transport_view orphan_at_16 = (False, 16, 1, None) \<and>
   step_position orphan_at_16 = (16, 32) \<and>
   map_option step_position (requestPattern 2 orphan_at_16) = Some (16, 16) \<and>
   tick_outcome nokick_at_31 = ((31, 32), [PlayTick], None, (31, 16))"
  by code_simp

lemma reached_fire_n:
  "reached c s \<Longrightarrow> fire_n h n s = Some s' \<Longrightarrow> reached c s'"
proof (induction n arbitrary: s)
  case 0
  then show ?case by simp
next
  case (Suc n)
  from Suc.prems(2) obtain vs s1 where f: "fire h s = Some (vs, s1)" "fire_n h n s1 = Some s'"
    by (auto split: option.splits)
  have "reached c s1"
  proof (cases "filter (\<lambda>t. timer_id t = h) (timers s)")
    case Nil
    with f(1) Suc.prems(1) show ?thesis by (simp add: fire_def)
  next
    case (Cons t ts)
    then have "t \<in> set (filter (\<lambda>t. timer_id t = h) (timers s))" by simp
    then have "t \<in> set (timers s)" by simp
    moreover from f(1) Cons have "tick (callback t) s = Some (vs, s1)" by (simp add: fire_def)
    ultimately show ?thesis using Suc.prems(1) by (rule r_tick [rotated -1, rotated -1])
  qed
  from Suc.IH [OF this f(2)] show ?case .
qed

text \<open>The run with the throwing tick is one of the page's: its last state is reachable.\<close>

lemma nokick_run:
  "map_option tick_outcome
     (Option.bind
        (Option.bind (setBars 2 initial_sequencer)
           (\<lambda>s1. requestPattern 2 (play (loadSequence (Some (snapshot_nokick 32)) s1))))
        (fire_n 1 31))
     = Some ((31, 32), [PlayTick], None, (31, 16))"
  by code_simp

lemma nokick_stopped:
  "map_option (\<lambda>s1. isPlaying (loadSequence (Some (snapshot_nokick 32)) s1))
     (setBars 2 initial_sequencer) = Some False"
  by code_simp

lemma nokick_reachable: "reachable (tick_thrown nokick_at_31)"
proof -
  from nokick_run obtain s1 s4 s5 where
    s1: "setBars 2 initial_sequencer = Some s1" and
    s4: "requestPattern 2 (play (loadSequence (Some (snapshot_nokick 32)) s1)) = Some s4" and
    s5: "fire_n 1 31 s4 = Some s5" and
    o: "tick_outcome s5 = ((31, 32), [PlayTick], None, (31, 16))"
    by (auto simp add: bind_eq_Some_conv simp del: fire_n.simps)
  have n: "nokick_at_31 = s5" unfolding nokick_at_31_def s1 option.sel s4 s5 by (rule refl)
  have "reachable s1" by (rule r_setBars [OF r_init s1])
  then have l: "reachable (loadSequence (Some (snapshot_nokick 32)) s1)" by (rule r_load)
  from nokick_stopped s1 have "\<not> isPlaying (loadSequence (Some (snapshot_nokick 32)) s1)"
    by simp
  with l have "reachable (play (loadSequence (Some (snapshot_nokick 32)) s1))" by (rule r_play)
  then have "reachable s4" using s4 by (rule r_request)
  then have r5: "reachable s5" using s5 by (rule reached_fire_n)
  from o obtain t where t: "t \<in> set (timers s5)" "callback t = PlayTick"
    by (cases "timers s5") (auto simp add: tick_outcome_def)
  from o have "tick PlayTick s5 = None" by (simp add: tick_outcome_def)
  with t have "tick (callback t) s5 = None" by simp
  from r_tick_throws [OF r5 t(1) this] show ?thesis by (simp add: n)
qed

text \<open>
  C9, for the calls the page makes. In every state reached through the operations as the
  page invokes them (\<open>play\<close> only while stopped, \<open>applyPattern\<close> only through
  \<open>requestPattern\<close> and the loop-end tick, valid time signatures), with handlers that
  throw included, the step count is at least 1 and the current step index is not
  negative; and as long as no tick has thrown since the transport was last stopped
  (\<open>steady\<close>), the index lies in \<open>[0, steps)\<close>.
\<close>

theorem step_index_in_range:
  "(steady s \<longrightarrow> 1 \<le> steps s \<and> 0 \<le> currentStep s \<and> currentStep s < steps s) \<and>
   (reachable s \<longrightarrow> 1 \<le> steps s \<and> 0 \<le> currentStep s)"
  using reachable_wf [of True s] reachable_wf [of False s] by (simp add: wf_state_def)

theorem step_index_in_range_witness:
  "steady (play initial_sequencer) \<and> 1 \<le> steps (play initial_sequencer) \<and>
   0 \<le> currentStep (play initial_sequencer) \<and>
   currentStep (play initial_sequencer) < steps (play initial_sequencer) \<and>
   reachable (tick_thrown nokick_at_31) \<and> 1 \<le> steps (tick_thrown nokick_at_31) \<and>
   0 \<le> currentStep (tick_thrown nokick_at_31)"
proof -
  have r: "steady (play initial_sequencer)"
    by (rule r_play [OF r_init]) (simp add: initial_fields)
  from step_index_in_range [of "play initial_sequencer"] r
    step_index_in_range [of "tick_thrown nokick_at_31"] nokick_reachable
  show ?thesis by simp
qed

section \<open>Saving and loading\<close>

text \<open>
  C4. In every reachable state, loading the snapshot that \<open>getSequenceData\<close> has just
  produced leaves the sequence as it was: tracks, volumes (master, sections, instruments),
  effect levels, removed flags, bpm, name and step count are unchanged, and so are the
  transport's tempo and step count. The one difference in the object is the key \<open>id\<close>,
  which the merge copies from the snapshot.
\<close>

theorem load_get_roundtrip:
  assumes "reachable s"
  shows "sequence (reload s) = (sequence s)\<lparr>seq_id := Some (currentSequenceId s)\<rparr> \<and>
         tracks (sequence (reload s)) = tracks (sequence s) \<and>
         volume (sequence (reload s)) = volume (sequence s) \<and>
         effects (sequence (reload s)) = effects (sequence s) \<and>
         removed (sequence (reload s)) = removed (sequence s) \<and>
         seq_bpm (sequence (reload s)) = seq_bpm (sequence s) \<and>
         seq_name (sequence (reload s)) = seq_name (sequence s) \<and>
         seq_steps (sequence (reload s)) = seq_steps (sequence s) \<and>
         bpm (reload s) = bpm s \<and> steps (reload s) = steps s \<and>
         currentSequenceId (reload s) = currentSequenceId s"
proof -
  from reachable_wf [OF assms] have b: "60 \<le> bpm s" "bpm s \<le> 200" "seq_bpm (sequence s) = bpm s"
    and v: "perInstrument (volume (sequence s)) \<noteq> None"
    by (simp_all add: wf_state_def)
  have m: "merge_snapshot (sequence s) (getSequenceData s)
           = (sequence s)\<lparr>seq_id := Some (currentSequenceId s)\<rparr>"
    by (simp add: merge_snapshot_def getSequenceData_def)
  from v obtain x where x: "perInstrument (volume (sequence s)) = Some x" by auto
  have c: "max 60 (min 200 (bpm s)) = bpm s" using b by simp
  have i: "sn_id (getSequenceData s) = Some (currentSequenceId s)"
    by (simp add: getSequenceData_def)
  have "sequence (reload s) = (sequence s)\<lparr>seq_id := Some (currentSequenceId s)\<rparr>"
    and "bpm (reload s) = bpm s" and "steps (reload s) = steps s"
    and "currentSequenceId (reload s) = currentSequenceId s"
    unfolding reload_def loadSequence_def
    by (simp_all add: m i Let_def x setBpm_def b(3) c)
  then show ?thesis by simp
qed

theorem load_get_roundtrip_witness:
  "reachable (play initial_sequencer) \<and>
   tracks (sequence (reload (play initial_sequencer))) = tracks (sequence (play initial_sequencer)) \<and>
   seq_bpm (sequence (reload (play initial_sequencer))) = 120"
proof -
  have r: "reachable (play initial_sequencer)"
    by (rule r_play [OF r_init]) (simp add: initial_fields)
  from load_get_roundtrip [OF r] r show ?thesis
    by (simp add: play_def setIntervalHost_def Let_def initial_fields)
qed

section \<open>Clearing the sequence\<close>

text \<open>
  C10. \<open>clearSequence\<close> sets every drum and synth activation flag of the live sequence to
  false, keeping every track's name and length, and changes nothing else: the state after
  it is the state before with only the live tracks replaced. In particular tempo, step
  count, volumes, effect levels, removed flags, note arrays, the pattern store with the
  active and pending ids, the playing flag and the step index are unchanged.
\<close>

theorem clearSequence_frame:
  "clearSequence s = s\<lparr>sequence := (sequence s)\<lparr>tracks := tracks (sequence (clearSequence s))\<rparr>\<rparr> \<and>
   (\<forall>e \<in> set (drums (tracks (sequence (clearSequence s)))). \<forall>b \<in> set (snd e). \<not> b) \<and>
   (\<forall>e \<in> set (synths (tracks (sequence (clearSequence s)))). \<forall>b \<in> set (snd e). \<not> b) \<and>
   map fst (drums (tracks (sequence (clearSequence s)))) = map fst (drums (tracks (sequence s))) \<and>
   map fst (synths (tracks (sequence (clearSequence s)))) = map fst (synths (tracks (sequence s))) \<and>
   live_lengths (clearSequence s) = live_lengths s \<and>
   bpm (clearSequence s) = bpm s \<and> seq_bpm (sequence (clearSequence s)) = seq_bpm (sequence s) \<and>
   steps (clearSequence s) = steps s \<and> seq_steps (sequence (clearSequence s)) = seq_steps (sequence s) \<and>
   volume (sequence (clearSequence s)) = volume (sequence s) \<and>
   effects (sequence (clearSequence s)) = effects (sequence s) \<and>
   removed (sequence (clearSequence s)) = removed (sequence s) \<and>
   synthNotes (clearSequence s) = synthNotes s \<and>
   patterns (clearSequence s) = patterns s \<and>
   isPlaying (clearSequence s) = isPlaying s \<and>
   currentStep (clearSequence s) = currentStep s"
  by (auto simp add: clearSequence_def dict_map_values_def live_lengths_def)

theorem clearSequence_frame_witness:
  "kick_flags kick_on = True # replicate 15 False \<and>
   (''kick'', replicate 16 False) \<in> set (drums (tracks (sequence (clearSequence kick_on)))) \<and>
   patterns (clearSequence kick_on) = patterns kick_on \<and>
   bpm (clearSequence kick_on) = 120"
proof -
  have a: "kick_flags kick_on = True # replicate 15 False" by code_simp
  have b: "(''kick'', replicate 16 False) \<in> set (drums (tracks (sequence (clearSequence kick_on))))"
    by code_simp
  have c: "bpm kick_on = 120" by code_simp
  from clearSequence_frame [of kick_on] a b c show ?thesis by simp
qed

section \<open>Requests for a slot that does not exist\<close>

text \<open>
  While playing, a request for a slot that does not exist is not without effect. At step
  10 with a switch to pattern 2 pending, \<open>requestPattern(7)\<close> replaces the pending id: the
  tick at the end of the loop clears it and the switch to pattern 2 never happens (the
  active pattern is 1 after the loop, and 2 without the request). A requested id 0 is
  falsy for the tick and stays pending for good.
\<close>

theorem nonexistent_request_replaces_pending:
  "transport_view request_only = (True, 10, 1, Some 2) \<and>
   map_option transport_view (fire_n 1 6 request_only) = Some (True, 0, 2, None) \<and>
   store (patterns request_only) 7 = None \<and>
   map_option transport_view (requestPattern 7 request_only) = Some (True, 10, 1, Some 7) \<and>
   map_option transport_view (Option.bind (requestPattern 7 request_only) (fire_n 1 6))
     = Some (True, 0, 1, None) \<and>
   store (patterns at_step_10) 0 = None \<and>
   map_option transport_view (Option.bind (requestPattern 0 at_step_10) (fire_n 1 22))
     = Some (True, 0, 1, Some 0)"
  by code_simp

text \<open>
  C7, as far as it holds. When the store has no pattern under \<open>i\<close>, \<open>applyPattern i\<close>
  returns the state unchanged and raises nothing (the outgoing pattern is not saved), and
  \<open>requestPattern i\<close> raises nothing and leaves the active id, the store, the live
  sequence (tracks, removed flags), the note arrays, the step count and the step index as
  they were. While stopped, or for the active id, it changes nothing at all; while playing
  it records \<open>i\<close> as the pending id, in place of any id pending before. The tick at the
  end of the loop then clears a pending \<open>i\<close> other than 0 without switching, and no tick
  clears a pending 0.
\<close>

theorem nonexistent_slot_noop:
  assumes "store (patterns s) i = None"
  shows "applyPattern i s = Some s \<and>
         requestPattern i s =
           Some (if isPlaying s \<and> i \<noteq> active (patterns s)
                 then s\<lparr>patterns := (patterns s)\<lparr>pending := Some i\<rparr>\<rparr> else s) \<and>
         map_option (active \<circ> patterns) (requestPattern i s) = Some (active (patterns s)) \<and>
         map_option (store \<circ> patterns) (requestPattern i s) = Some (store (patterns s)) \<and>
         map_option sequence (requestPattern i s) = Some (sequence s) \<and>
         map_option synthNotes (requestPattern i s) = Some (synthNotes s) \<and>
         map_option steps (requestPattern i s) = Some (steps s) \<and>
         map_option currentStep (requestPattern i s) = Some (currentStep s) \<and>
         (pending (patterns s) = Some i \<longrightarrow>
            tick PlayTick s =
              Some (playStep s,
                    advance (if currentStep s = steps s - 1 \<and> i \<noteq> 0
                             then s\<lparr>patterns := (patterns s)\<lparr>pending := None\<rparr>\<rparr> else s)))"
proof -
  have a: "applyPattern i s = Some s" using assms by (simp add: applyPattern_def)
  have r: "requestPattern i s =
           Some (if isPlaying s \<and> i \<noteq> active (patterns s)
                 then s\<lparr>patterns := (patterns s)\<lparr>pending := Some i\<rparr>\<rparr> else s)"
    using a by (simp add: requestPattern_def)
  have t: "pending (patterns s) = Some i \<longrightarrow>
            tick PlayTick s =
              Some (playStep s,
                    advance (if currentStep s = steps s - 1 \<and> i \<noteq> 0
                             then s\<lparr>patterns := (patterns s)\<lparr>pending := None\<rparr>\<rparr> else s))"
    using a by (simp add: tick_def Let_def)
  from a r t show ?thesis by simp
qed

theorem nonexistent_slot_noop_witness:
  "store (patterns (play initial_sequencer)) 7 = None \<and>
   applyPattern 7 (play initial_sequencer) = Some (play initial_sequencer) \<and>
   map_option transport_view (requestPattern 7 (play initial_sequencer))
     = Some (True, 0, 1, Some 7) \<and>
   map_option steps (requestPattern 7 (play initial_sequencer)) = Some 16"
proof -
  have h: "store (patterns (play initial_sequencer)) 7 = None"
    by (simp add: play_def setIntervalHost_def Let_def initial_store)
  have f: "active (patterns (play initial_sequencer)) = 1" "steps (play initial_sequencer) = 16"
    "isPlaying (play initial_sequencer)" "currentStep (play initial_sequencer) = 0"
    by (simp_all add: play_def setIntervalHost_def Let_def initial_fields)
  from nonexistent_slot_noop [OF h] h f show ?thesis by (simp add: transport_view_def)
qed

section \<open>Removed instruments\<close>

lemma dict_get_dict_set: "dict_get (dict_set k v d) k = Some v"
  by (induction d) (simp_all add: dict_get_def)

lemma is_removed_currentStep [simp]:
  "is_removed (s\<lparr>currentStep := k\<rparr>) sct n = is_removed s sct n"
  by (simp add: is_removed_def)

lemma removed_silent:
  assumes "is_removed s sct n"
  shows "voices_for sct n (playStep s) = []"
proof (cases sct)
  case Drums
  with assms show ?thesis
    by (auto simp add: voices_for_def playStep_def Let_def filter_empty_conv)
next
  case Synths
  with assms show ?thesis
    by (auto simp add: voices_for_def playStep_def Let_def filter_empty_conv)
qed

lemma toggle_is_removed:
  "is_removed (toggleInstrumentRemoved sct n s) sct n = (\<not> is_removed s sct n)"
  by (cases sct) (simp_all add: toggleInstrumentRemoved_def is_removed_def Let_def dict_get_dict_set)

text \<open>
  C5. A removed instrument fires no voice in \<open>playStep\<close>, at any step index \<open>k\<close> and
  whatever its activation flags are. Marking an instrument removed changes neither the
  tracks nor the note arrays, and after it the instrument is silent. \<open>playStep\<close> only
  reads the object; a tick without a pending switch fires \<open>playStep\<close> and advances
  the index, leaving tracks, removed flags and notes as they are.
\<close>

theorem removal_hides:
  "(is_removed s sct n \<longrightarrow> voices_for sct n (playStep (s\<lparr>currentStep := k\<rparr>)) = []) \<and>
   is_removed (toggleInstrumentRemoved sct n s) sct n = (\<not> is_removed s sct n) \<and>
   (\<not> is_removed s sct n \<longrightarrow>
      voices_for sct n (playStep ((toggleInstrumentRemoved sct n s)\<lparr>currentStep := k\<rparr>)) = []) \<and>
   tracks (sequence (toggleInstrumentRemoved sct n s)) = tracks (sequence s) \<and>
   synthNotes (toggleInstrumentRemoved sct n s) = synthNotes s \<and>
   (pending (patterns s) = None \<longrightarrow>
      tick kd s = Some (playStep s, advance s) \<and>
      tracks (sequence (advance s)) = tracks (sequence s) \<and>
      removed (sequence (advance s)) = removed (sequence s) \<and>
      synthNotes (advance s) = synthNotes s)"
proof -
  have a: "is_removed s sct n \<longrightarrow> voices_for sct n (playStep (s\<lparr>currentStep := k\<rparr>)) = []"
    using removed_silent [of "s\<lparr>currentStep := k\<rparr>" sct n] by simp
  have b: "\<not> is_removed s sct n \<longrightarrow>
      voices_for sct n (playStep ((toggleInstrumentRemoved sct n s)\<lparr>currentStep := k\<rparr>)) = []"
    using removed_silent [of "(toggleInstrumentRemoved sct n s)\<lparr>currentStep := k\<rparr>" sct n]
      toggle_is_removed [of sct n s] by simp
  have c: "tracks (sequence (toggleInstrumentRemoved sct n s)) = tracks (sequence s)"
    "synthNotes (toggleInstrumentRemoved sct n s) = synthNotes s"
    by (simp_all add: toggleInstrumentRemoved_def Let_def)
  have d: "pending (patterns s) = None \<longrightarrow> tick kd s = Some (playStep s, advance s)"
    by (cases kd) (simp_all add: tick_def Let_def)
  from a b c d toggle_is_removed [of sct n s] show ?thesis by simp
qed

theorem removal_hides_witness:
  "is_removed kick_removed Drums ''kick'' \<and>
   kick_flags kick_removed = True # replicate 15 False \<and>
   playStep kick_on = [DrumVoice ''kick''] \<and>
   voices_for Drums ''kick'' (playStep (kick_removed\<lparr>currentStep := 0\<rparr>)) = [] \<and>
   pending (patterns kick_removed) = None \<and>
   tick PlayTick kick_removed = Some (playStep kick_removed, advance kick_removed)"
proof -
  have r: "is_removed kick_removed Drums ''kick''" by code_simp
  have f: "kick_flags kick_removed = True # replicate 15 False" by code_simp
  have v: "playStep kick_on = [DrumVoice ''kick'']" by code_simp
  have p: "pending (patterns kick_removed) = None" by code_simp
  from removal_hides [of kick_removed Drums "''kick''" 0 PlayTick] r f v p show ?thesis by simp
qed

section \<open>Starting playback twice\<close>

text \<open>
  \<open>play\<close> has no guard: on the fresh object one call leaves one timer, a second call
  leaves two, with \<open>stepInterval\<close> naming the second; \<open>stop\<close> then cancels only that
  one, and the first stays in the host's table while the sequencer is stopped.
\<close>

theorem second_play_adds_timer:
  "map timer_id (timers (play initial_sequencer)) = [1] \<and>
   stepInterval (play initial_sequencer) = Some 1 \<and>
   map timer_id (timers (play (play initial_sequencer))) = [1, 2] \<and>
   stepInterval (play (play initial_sequencer)) = Some 2 \<and>
   map timer_id (timers (stop (play (play initial_sequencer)))) = [1] \<and>
   isPlaying (stop (play (play initial_sequencer))) = False"
  by code_simp

text \<open>
  C6, as far as it holds. On a playing sequencer \<open>play\<close> leaves the playing flag, the step index,
  the step count, the tempo, the sequence, the patterns and the notes unchanged; it
  installs one more periodic timer and points \<open>stepInterval\<close> to it. The page calls
  \<open>play\<close> only while stopped, and from a reachable stopped state the new timer is the
  only one.
\<close>

theorem play_while_playing:
  "(isPlaying s \<longrightarrow>
      isPlaying (play s) = isPlaying s \<and> currentStep (play s) = currentStep s \<and>
      steps (play s) = steps s \<and> bpm (play s) = bpm s \<and> sequence (play s) = sequence s \<and>
      patterns (play s) = patterns s \<and> synthNotes (play s) = synthNotes s \<and>
      timers (play s) =
        timers s @ [\<lparr>timer_id = nextTimer s, callback = PlayTick, period = getStepDuration s\<rparr>] \<and>
      stepInterval (play s) = Some (nextTimer s)) \<and>
   (reachable s \<and> \<not> isPlaying s \<longrightarrow>
      isPlaying (play s) \<and> currentStep (play s) = 0 \<and>
      timers (play s) =
        [\<lparr>timer_id = nextTimer s, callback = PlayTick, period = getStepDuration s\<rparr>] \<and>
      stepInterval (play s) = Some (nextTimer s))"
proof -
  have "reachable s \<and> \<not> isPlaying s \<longrightarrow> timers s = [] \<and> currentStep s = 0"
    using reachable_wf [of False s] by (auto simp add: wf_state_def)
  then show ?thesis
    by (auto simp add: play_def setIntervalHost_def Let_def getStepDuration_def)
qed

theorem play_while_playing_witness:
  "isPlaying (play initial_sequencer) \<and>
   currentStep (play (play initial_sequencer)) = 0 \<and>
   map callback (timers (play (play initial_sequencer))) = [PlayTick, PlayTick] \<and>
   reachable initial_sequencer \<and> \<not> isPlaying initial_sequencer \<and>
   map callback (timers (play initial_sequencer)) = [PlayTick]"
proof -
  have a: "isPlaying (play initial_sequencer)" "currentStep (play initial_sequencer) = 0"
    "map callback (timers (play initial_sequencer)) = [PlayTick]" "\<not> isPlaying initial_sequencer"
    by (simp_all add: play_def setIntervalHost_def Let_def initial_fields)
  from play_while_playing [of "play initial_sequencer"] play_while_playing [of initial_sequencer]
    a r_init show ?thesis by simp
qed

section \<open>The quantized pattern switch\<close>

text \<open>
  The callback that \<open>play\<close> installs: before the last step a pending request changes
  nothing; on the last step the voices are those of the state before the switch, then the
  pattern is applied and the pending id cleared, then the index advances. The callback that
  \<open>updateStepInterval\<close> installs only fires the step and advances, so as long as that
  timer runs the patterns record does not change.
\<close>

lemma play_tick_before_loop_end:
  assumes "pending (patterns s) = Some i" and "currentStep s \<noteq> steps s - 1"
  shows "tick PlayTick s = Some (playStep s, advance s)"
  using assms by (simp add: tick_def Let_def)

lemma play_tick_at_loop_end:
  assumes "pending (patterns s) = Some i" and "i \<noteq> 0" and "currentStep s = steps s - 1"
    and "applyPattern i s = Some s1"
  shows "tick PlayTick s = Some (playStep s, advance (s1\<lparr>patterns := (patterns s1)\<lparr>pending := None\<rparr>\<rparr>))"
  using assms by (simp add: tick_def Let_def)

lemma interval_tick: "tick IntervalTick s = Some (playStep s, advance s)"
  by (simp add: tick_def Let_def)

lemma interval_timer_never_switches:
  assumes "filter (\<lambda>t. timer_id t = h) (timers s) = t0 # ts" and "callback t0 = IntervalTick"
  shows "\<exists>s'. fire_n h n s = Some s' \<and> patterns s' = patterns s \<and> timers s' = timers s"
  using assms
proof (induction n arbitrary: s)
  case 0
  then show ?case by simp
next
  case (Suc n)
  have f: "fire h s = Some (playStep s, advance s)"
    using Suc.prems by (simp add: fire_def interval_tick)
  have "filter (\<lambda>t. timer_id t = h) (timers (advance s)) = t0 # ts"
    using Suc.prems by simp
  from Suc.IH [OF this Suc.prems(2)] f show ?case by simp
qed

text \<open>
  C1. Playing 16 steps at step 10: a tempo change replaces the timer of \<open>play\<close> by the
  one of \<open>updateStepInterval\<close>. Pattern 2 is then requested and recorded as pending. The
  ticks for steps 10 to 14 leave the active pattern 1, and so does the tick on step 15
  that wraps to 0: the active pattern is still 1 and the pending id is still 2, and this
  stays so after any number \<open>n\<close> of ticks. Without the tempo change the same request is
  applied on the wrapping tick: active 2, pending none.
\<close>

theorem pending_switch_lost_after_setBpm:
  "transport_view at_step_10 = (True, 10, 1, None) \<and>
   steps at_step_10 = 16 \<and>
   map callback (timers at_step_10) = [PlayTick] \<and>
   map callback (timers (setBpm 140 at_step_10)) = [IntervalTick] \<and>
   stepInterval (setBpm 140 at_step_10) = Some 2 \<and>
   transport_view tempo_then_request = (True, 10, 1, Some 2) \<and>
   map_option transport_view (fire_n 2 5 tempo_then_request) = Some (True, 15, 1, Some 2) \<and>
   map_option transport_view (fire_n 2 6 tempo_then_request) = Some (True, 0, 1, Some 2) \<and>
   map_option (pending \<circ> patterns) (fire_n 2 n tempo_then_request) = Some (Some 2) \<and>
   map_option (active \<circ> patterns) (fire_n 2 n tempo_then_request) = Some 1 \<and>
   map_option transport_view (fire_n 1 5 request_only) = Some (True, 15, 1, Some 2) \<and>
   map_option transport_view (fire_n 1 6 request_only) = Some (True, 0, 2, None)"
proof -
  have a: "transport_view at_step_10 = (True, 10, 1, None)" "steps at_step_10 = 16"
    "map callback (timers at_step_10) = [PlayTick]"
    "map callback (timers (setBpm 140 at_step_10)) = [IntervalTick]"
    "stepInterval (setBpm 140 at_step_10) = Some 2"
    by code_simp+
  have b: "transport_view tempo_then_request = (True, 10, 1, Some 2)"
    "map_option transport_view (fire_n 2 5 tempo_then_request) = Some (True, 15, 1, Some 2)"
    "map_option transport_view (fire_n 2 6 tempo_then_request) = Some (True, 0, 1, Some 2)"
    by code_simp+
  have c: "map_option transport_view (fire_n 1 5 request_only) = Some (True, 15, 1, Some 2)"
    "map_option transport_view (fire_n 1 6 request_only) = Some (True, 0, 2, None)"
    by code_simp+
  have t: "filter (\<lambda>t. timer_id t = 2) (timers tempo_then_request)
             = [\<lparr>timer_id = 2, callback = IntervalTick, period = 750 / 7\<rparr>]"
    by code_simp
  have "callback \<lparr>timer_id = 2, callback = IntervalTick, period = 750 / 7\<rparr> = IntervalTick"
    by simp
  from interval_timer_never_switches [OF t this, of n] obtain s' where
    s': "fire_n 2 n tempo_then_request = Some s'" "patterns s' = patterns tempo_then_request"
    by blast
  from b(1) have "pending (patterns tempo_then_request) = Some 2"
    "active (patterns tempo_then_request) = 1"
    by (simp_all add: transport_view_def)
  with s' have d: "map_option (pending \<circ> patterns) (fire_n 2 n tempo_then_request) = Some (Some 2)"
    "map_option (active \<circ> patterns) (fire_n 2 n tempo_then_request) = Some 1"
    by simp_all
  from a b c d show ?thesis by simp
qed

section \<open>Envelope stages\<close>

text \<open>
  C3. For each of the four recipes of \<open>playSynthSound\<close>, for the default parameters of
  \<open>generateSynth\<close> and for the \<open>arp\<close> call of the other engine file, the ordering
  \<open>attack \<le> attack + decay \<le> duration - release \<le> duration\<close> fails: the sustain hold
  is scheduled at \<open>duration - release\<close>, which lies before the end of the decay ramp at
  \<open>attack + decay\<close>. The event times are listed in the order of the calls.
\<close>

theorem adsr_stages_overlap:
  "map_option stages_ordered (playSynthSound ''bass'' f) = Some False \<and>
   map_option stages_ordered (playSynthSound ''lead'' f) = Some False \<and>
   map_option stages_ordered (playSynthSound ''pad'' f) = Some False \<and>
   map_option stages_ordered (playSynthSound ''arp'' f) = Some False \<and>
   stages_ordered (generateSynth_defaults f) = False \<and>
   stages_ordered (arp_static f) = False \<and>
   map_option (map event_time \<circ> generateSynth) (playSynthSound ''bass'' f)
     = Some [0, 1 / 100, 31 / 100, 1 / 10, 1 / 2] \<and>
   map_option (map event_time \<circ> generateSynth) (playSynthSound ''lead'' f)
     = Some [0, 2 / 100, 17 / 100, 1 / 10, 3 / 10] \<and>
   map_option (map event_time \<circ> generateSynth) (playSynthSound ''pad'' f)
     = Some [0, 4 / 10, 8 / 10, 4 / 10, 12 / 10] \<and>
   map_option (map event_time \<circ> generateSynth) (playSynthSound ''arp'' f)
     = Some [0, 1 / 100, 9 / 100, 3 / 100, 18 / 100] \<and>
   map event_time (generateSynth (generateSynth_defaults f)) = [0, 1 / 100, 31 / 100, 0, 1 / 2] \<and>
   map event_time (generateSynth_static (arp_static f)) = [0, 1 / 100, 11 / 100, 0, 2 / 10]"
  by (simp add: playSynthSound_def stages_ordered_def generateSynth_defaults_def arp_static_def
        generateSynth_def generateSynth_static_def Let_def)

text \<open>The envelopes that the other engine file writes out for bass, lead and pad are in
  order, and for \<open>generateSynth\<close> the ordering of the scheduled times is the ordering of
  the stages.\<close>

lemma enhanced_envelopes_ordered:
  "sorted (map event_time generateEnhancedBass) \<and>
   sorted (map event_time generateEnhancedLead) \<and>
   sorted (map event_time generateEnhancedPad)"
  by (simp add: generateEnhancedBass_def generateEnhancedLead_def generateEnhancedPad_def)

lemma generateSynth_sorted_iff:
  "0 \<le> attack a \<Longrightarrow> sorted (map event_time (generateSynth a)) = stages_ordered a"
  by (auto simp add: generateSynth_def stages_ordered_def Let_def)

section \<open>Resizing\<close>





text \<open>
  The two local \<open>resize\<close> functions pad or truncate; on a slot that holds the ten
  instruments the per-name loop of \<open>resizePatternsTo\<close> resizes every array and cannot
  throw; and the note check of \<open>renderSynthTracks\<close> keeps note arrays of the length
  \<open>steps\<close> and adds arrays of that length after them.
\<close>

lemma length_pad_truncate [simp]: "length (pad_truncate n f arr) = n"
  by (simp add: pad_truncate_def)



lemma dict_keys_map_values [simp]: "dict_keys (dict_map_values g d) = dict_keys d"
  by (simp add: dict_keys_def dict_map_values_def comp_def)









lemma arrays_len_append [simp]:
  "arrays_len n (d @ e) = (arrays_len n d \<and> arrays_len n e)"
  by (simp add: arrays_len_def)






lemma resized_slot_fields [simp]:
  "p_tracks (resized_slot k (p\<lparr>bars := c\<rparr>)) = p_tracks (resized_slot k p)"
  "p_synthNotes (resized_slot k (p\<lparr>bars := c\<rparr>)) = p_synthNotes (resized_slot k p)"
  "p_removed (resized_slot k p) = p_removed p"
  "bars (resized_slot k p) = bars p"
  by (simp_all add: resized_slot_def)

lemma keyed_bars [simp]: "keyed (p\<lparr>bars := c\<rparr>) = keyed p"
  by (simp add: keyed_def)

lemma keyed_resized [simp]: "keyed (resized_slot k p) = keyed p"
  by (simp add: keyed_def resized_slot_def has_names_def)










end
